theory Spec2Isabelle
  imports Main "HOL-Library.Word"
begin

section \<open>Value model (ifc-api.h)\<close>

text \<open>
  \<^verbatim>\<open>IfcSimpleValueVariant\<close> is a \<^verbatim>\<open>std::variant\<close> of six alternatives.  \<^verbatim>\<open>long\<close> is
  modelled as \<^typ>\<open>int\<close> (no arithmetic is done on it here), \<^verbatim>\<open>uint32_t\<close> as a 32-bit word,
  and a \<^verbatim>\<open>double\<close> by its 64-bit pattern: the values are only passed through.
\<close>

datatype IfcSimpleValueVariant =
    Monostate
  | VString string
  | VBool bool
  | VLong int
  | VUInt32 "32 word"
  | VDouble "64 word"

text \<open>
  \<^verbatim>\<open>IfcArgument\<close> holds a variant of a simple value, an \<^verbatim>\<open>IfcArgumentList\<close> (a vector) or an
  \<^verbatim>\<open>IfcArgumentObject\<close> (an \<^verbatim>\<open>unordered_map\<close> from strings to arguments).  The map is kept as
  an association list with distinct keys, see \<open>obj_insert\<close>.
\<close>

datatype IfcArgument =
    ArgSimple IfcSimpleValueVariant
  | ArgList "IfcArgument list"
  | ArgObject "(string \<times> IfcArgument) list"

type_synonym IfcArgumentList = "IfcArgument list"
type_synonym IfcArgumentObject = "(string \<times> IfcArgument) list"

text \<open>\<^verbatim>\<open>unordered_map::insert\<close>: the pair is added unless the key is already present.\<close>

definition obj_insert :: "string \<times> IfcArgument \<Rightarrow> IfcArgumentObject \<Rightarrow> IfcArgumentObject" where
  "obj_insert kv obj = (if fst kv \<in> fst ` set obj then obj else obj @ [kv])"

text \<open>
  \<^verbatim>\<open>IfcRawLine\<close>: two optional 32-bit fields and an argument.  The default constructor
  sets \<^verbatim>\<open>arguments(std::monostate{}), ID(std::nullopt), type(std::nullopt)\<close>.
\<close>

record IfcRawLine =
  ID :: "32 word option"
  type :: "32 word option"
  arguments :: IfcArgument

definition IfcRawLine_default :: IfcRawLine where
  "IfcRawLine_default = \<lparr>ID = None, type = None, arguments = ArgSimple Monostate\<rparr>"

section \<open>Token source, schema resolver and model registry\<close>

text \<open>
  Modelled from the spec: the classes \<^verbatim>\<open>IfcLoader\<close>, \<^verbatim>\<open>ModelManager\<close> and the enumeration
  \<^verbatim>\<open>IfcTokenType\<close> are declared in headers that are absent.  The token source is a
  positioned stream of typed tokens.  The classifications are the ten that \<^verbatim>\<open>GetArgs\<close>
  names, and \<open>UNKNOWN\<close> for the unrecognized/other category.
\<close>

datatype IfcTokenType =
  UNKNOWN | STRING | LABEL | ENUM | REAL | REF | EMPTY | SET_BEGIN | SET_END | LINE_END | INTEGER

text \<open>
  Modelled from the spec: a token with the payload its typed accessors read.  A STRING
  token has a raw and a decoded payload, a REAL token a numeric payload and its text.
\<close>

datatype IfcToken =
    T_UNKNOWN
  | T_STRING string string
  | T_LABEL string
  | T_ENUM string
  | T_REAL "64 word" string
  | T_REF "32 word"
  | T_EMPTY
  | T_SET_BEGIN
  | T_SET_END
  | T_LINE_END
  | T_INTEGER int

fun tokenType :: "IfcToken \<Rightarrow> IfcTokenType" where
  "tokenType T_UNKNOWN = UNKNOWN"
| "tokenType (T_STRING raw dec) = STRING"
| "tokenType (T_LABEL s) = LABEL"
| "tokenType (T_ENUM s) = ENUM"
| "tokenType (T_REAL d s) = REAL"
| "tokenType (T_REF r) = REF"
| "tokenType T_EMPTY = EMPTY"
| "tokenType T_SET_BEGIN = SET_BEGIN"
| "tokenType T_SET_END = SET_END"
| "tokenType T_LINE_END = LINE_END"
| "tokenType (T_INTEGER i) = INTEGER"

text \<open>
  Modelled from the spec: a record of the file has a type code (0 = invalid) and the
  position where its argument section starts.
\<close>

record IfcLine =
  lineType :: "32 word"
  argumentStart :: nat

text \<open>
  Modelled from the spec: the loader is the token stream, the cursor and the table of
  records.  The source passes it by pointer and mutates the cursor; the model passes the
  loader state and returns the new one.
\<close>

record IfcLoader =
  tokens :: "IfcToken list"
  cursor :: nat
  lines :: "(32 word \<times> IfcLine) list"

text \<open>
  Modelled from the spec: calling an accessor against a token of another classification
  (or with no token under the cursor) is the one failure of the token source.
\<close>

datatype error = WrongAccessor

definition IsAtEnd :: "IfcLoader \<Rightarrow> bool" where
  "IsAtEnd l = (length (tokens l) \<le> cursor l)"

definition current :: "IfcLoader \<Rightarrow> IfcToken option" where
  "current l = (if cursor l < length (tokens l) then Some (tokens l ! cursor l) else None)"

definition advance :: "IfcLoader \<Rightarrow> IfcLoader" where
  "advance l = l\<lparr>cursor := cursor l + 1\<rparr>"

text \<open>
  Modelled from the spec: \<^verbatim>\<open>GetTokenType\<close> advances past and classifies the next token;
  with no token left the classification is the unrecognized one, and the cursor moves
  all the same.
\<close>

definition GetTokenType :: "IfcLoader \<Rightarrow> IfcTokenType \<times> IfcLoader" where
  "GetTokenType l =
     (case current l of None \<Rightarrow> (UNKNOWN, advance l) | Some tok \<Rightarrow> (tokenType tok, advance l))"

text \<open>Modelled from the spec: \<^verbatim>\<open>StepBack\<close> un-consumes the most recently classified token.\<close>

definition StepBack :: "IfcLoader \<Rightarrow> IfcLoader" where
  "StepBack l = l\<lparr>cursor := cursor l - 1\<rparr>"

text \<open>
  Modelled from the spec: the typed payload accessors.  Each reads the payload of the
  token under the cursor and moves past it.  The raw string payload is read from
  STRING, LABEL and ENUM tokens.
\<close>

definition GetStringArgument :: "IfcLoader \<Rightarrow> error + (string \<times> IfcLoader)" where
  "GetStringArgument l =
     (case current l of
        Some (T_STRING raw dec) \<Rightarrow> Inr (raw, advance l)
      | Some (T_LABEL s) \<Rightarrow> Inr (s, advance l)
      | Some (T_ENUM s) \<Rightarrow> Inr (s, advance l)
      | _ \<Rightarrow> Inl WrongAccessor)"

definition GetDecodedStringArgument :: "IfcLoader \<Rightarrow> error + (string \<times> IfcLoader)" where
  "GetDecodedStringArgument l =
     (case current l of
        Some (T_STRING raw dec) \<Rightarrow> Inr (dec, advance l)
      | _ \<Rightarrow> Inl WrongAccessor)"

definition GetDoubleArgument :: "IfcLoader \<Rightarrow> error + (64 word \<times> IfcLoader)" where
  "GetDoubleArgument l =
     (case current l of
        Some (T_REAL d s) \<Rightarrow> Inr (d, advance l)
      | _ \<Rightarrow> Inl WrongAccessor)"

definition GetDoubleArgumentAsString :: "IfcLoader \<Rightarrow> error + (string \<times> IfcLoader)" where
  "GetDoubleArgumentAsString l =
     (case current l of
        Some (T_REAL d s) \<Rightarrow> Inr (s, advance l)
      | _ \<Rightarrow> Inl WrongAccessor)"

definition GetIntArgument :: "IfcLoader \<Rightarrow> error + (int \<times> IfcLoader)" where
  "GetIntArgument l =
     (case current l of
        Some (T_INTEGER i) \<Rightarrow> Inr (i, advance l)
      | _ \<Rightarrow> Inl WrongAccessor)"

definition GetRefArgument :: "IfcLoader \<Rightarrow> error + (32 word \<times> IfcLoader)" where
  "GetRefArgument l =
     (case current l of
        Some (T_REF r) \<Rightarrow> Inr (r, advance l)
      | _ \<Rightarrow> Inl WrongAccessor)"

text \<open>Modelled from the spec: the record-positioning operations of the token source.\<close>

definition IsValidExpressID :: "IfcLoader \<Rightarrow> 32 word \<Rightarrow> bool" where
  "IsValidExpressID l expressID = (map_of (lines l) expressID \<noteq> None)"

definition GetLineType :: "IfcLoader \<Rightarrow> 32 word \<Rightarrow> 32 word" where
  "GetLineType l expressID =
     (case map_of (lines l) expressID of None \<Rightarrow> 0 | Some ln \<Rightarrow> lineType ln)"

text \<open>
  Modelled from the spec: seek to the start of the record's argument section.  The
  source only ever passes argument index 0, which is the only one modelled; a seek to an
  identifier without a record leaves the cursor where it is.
\<close>

definition MoveToArgumentOffset :: "IfcLoader \<Rightarrow> 32 word \<Rightarrow> IfcLoader" where
  "MoveToArgumentOffset l expressID =
     (case map_of (lines l) expressID of
        None \<Rightarrow> l
      | Some ln \<Rightarrow> l\<lparr>cursor := argumentStart ln\<rparr>)"

text \<open>
  Modelled from the spec: the model registry answers whether a model is open, and its
  schema manager resolves a type name to a type code (unknown names still give a code).
\<close>

record ModelManager =
  IsModelOpen :: "int \<Rightarrow> bool"
  IfcTypeToTypeCode :: "string \<Rightarrow> 32 word"

section \<open>The scalar reader\<close>

text \<open>
  \<^verbatim>\<open>ReadValue(loader, t)\<close>.  The pointer is \<open>None\<close> when null.  The result is the variant
  and the loader after the accessor has run.
\<close>

definition ReadValue ::
  "IfcLoader option \<Rightarrow> IfcTokenType \<Rightarrow> error + (IfcSimpleValueVariant \<times> IfcLoader option)" where
  "ReadValue loader t =
     (case loader of
        None \<Rightarrow> Inr (Monostate, None)
      | Some l \<Rightarrow>
         (case t of
            STRING \<Rightarrow>
              (case GetDecodedStringArgument l of
                 Inl e \<Rightarrow> Inl e
               | Inr (s, l') \<Rightarrow> Inr (VString s, Some l'))
          | ENUM \<Rightarrow>
              (case GetStringArgument l of
                 Inl e \<Rightarrow> Inl e
               | Inr (s, l') \<Rightarrow>
                   if s = ''T'' then Inr (VBool True, Some l')
                   else if s = ''F'' then Inr (VBool False, Some l')
                   else if s = ''U'' then Inr (Monostate, Some l')
                   else Inr (VString s, Some l'))
          | REAL \<Rightarrow>
              (case GetDoubleArgument l of
                 Inl e \<Rightarrow> Inl e
               | Inr (d, l') \<Rightarrow> Inr (VDouble d, Some l'))
          | INTEGER \<Rightarrow>
              (case GetIntArgument l of
                 Inl e \<Rightarrow> Inl e
               | Inr (i, l') \<Rightarrow> Inr (VLong i, Some l'))
          | REF \<Rightarrow>
              (case GetRefArgument l of
                 Inl e \<Rightarrow> Inl e
               | Inr (r, l') \<Rightarrow> Inr (VUInt32 r, Some l'))
          | _ \<Rightarrow> Inr (Monostate, Some l)))"

section \<open>The argument decoder\<close>

text \<open>
  \<^verbatim>\<open>GetArgs(loader, manager)\<close>.  The \<^verbatim>\<open>while\<close> loop is the recursive function
  \<open>GetArgs_loop\<close> over the loop state (the loader, the list built so far and the flag
  \<^verbatim>\<open>endOfList\<close>); a recursive call of \<^verbatim>\<open>GetArgs\<close> is the loop started with an empty list.
  \<open>tokenCode\<close> stands for \<^verbatim>\<open>static_cast<long>(t)\<close>: the numeric values of the
  enumeration are declared in the absent header.  The loader pointer is not null here
  (the loop condition dereferences it), so \<open>ReadValue\<close> gives back the loader moved on.
\<close>

function GetArgs_loop ::
  "(IfcTokenType \<Rightarrow> int) \<Rightarrow> ModelManager \<Rightarrow> IfcLoader \<Rightarrow> IfcArgumentList \<Rightarrow> bool
   \<Rightarrow> error + (IfcArgumentList \<times> IfcLoader)" where
  "GetArgs_loop tokenCode manager loader args endOfList =
     (if \<not> IsAtEnd loader \<and> \<not> endOfList then
        (case GetTokenType loader of (t, l1) \<Rightarrow>
           if t = LINE_END \<or> t = SET_END then
             GetArgs_loop tokenCode manager l1 args True
           else if t = EMPTY then
             GetArgs_loop tokenCode manager l1 (args @ [ArgSimple Monostate]) endOfList
           else if t = SET_BEGIN then
             (case GetArgs_loop tokenCode manager l1 [] False of
                Inl e \<Rightarrow> Inl e
              | Inr (inner, l2) \<Rightarrow>
                  GetArgs_loop tokenCode manager l2 (args @ [ArgList inner]) endOfList)
           else if t = LABEL then
             (let obj = obj_insert (''type'', ArgSimple (VLong (tokenCode t))) [] in
              case GetStringArgument (StepBack l1) of
                Inl e \<Rightarrow> Inl e
              | Inr (s, l2) \<Rightarrow>
                 (let typeCode = IfcTypeToTypeCode manager s;
                      obj = obj_insert (''typecode'', ArgSimple (VUInt32 typeCode)) obj;
                      l3 = snd (GetTokenType l2)
                  in case GetArgs_loop tokenCode manager l3 [] False of
                       Inl e \<Rightarrow> Inl e
                     | Inr (inner, l4) \<Rightarrow>
                        (let obj = obj_insert (''value'', ArgList inner) obj
                         in GetArgs_loop tokenCode manager l4 (args @ [ArgObject obj]) endOfList)))
           else if t = STRING \<or> t = ENUM \<or> t = REAL \<or> t = INTEGER \<or> t = REF then
             (case ReadValue (Some (StepBack l1)) t of
                Inl e \<Rightarrow> Inl e
              | Inr (simpleVal, p) \<Rightarrow>
                  GetArgs_loop tokenCode manager (case p of Some l2 \<Rightarrow> l2 | None \<Rightarrow> StepBack l1)
                    (args @ [ArgSimple simpleVal]) endOfList)
           else
             GetArgs_loop tokenCode manager l1 args endOfList)
      else Inr (args, loader))"
  by pat_completeness auto

subsection \<open>Termination: every iteration moves the cursor forward\<close>

lemma GetTokenType_frame:
  "GetTokenType l = (t, l') \<Longrightarrow> tokens l' = tokens l \<and> lines l' = lines l \<and> cursor l' = cursor l + 1"
  by (auto simp: GetTokenType_def advance_def split: option.splits)

lemma GetStringArgument_frame:
  "GetStringArgument l = Inr (s, l') \<Longrightarrow> tokens l' = tokens l \<and> lines l' = lines l \<and> cursor l' = cursor l + 1"
  by (auto simp: GetStringArgument_def advance_def split: option.splits IfcToken.splits)

lemma ReadValue_frame:
  "ReadValue (Some l) t = Inr (v, p) \<Longrightarrow> t = STRING \<or> t = ENUM \<or> t = REAL \<or> t = INTEGER \<or> t = REF \<Longrightarrow>
   \<exists>l'. p = Some l' \<and> tokens l' = tokens l \<and> lines l' = lines l \<and> cursor l' = cursor l + 1"
  by (auto simp: ReadValue_def GetStringArgument_def GetDecodedStringArgument_def
        GetDoubleArgument_def GetIntArgument_def GetRefArgument_def advance_def
      split: option.splits IfcToken.splits if_splits)

lemma StepBack_frame: "tokens (StepBack l) = tokens l \<and> lines (StepBack l) = lines l \<and> cursor (StepBack l) = cursor l - 1"
  by (simp add: StepBack_def)

lemma GetArgs_loop_frame_dom:
  "GetArgs_loop_dom (tokenCode, m, l, args, e) \<Longrightarrow> GetArgs_loop tokenCode m l args e = Inr (as, l') \<Longrightarrow>
   tokens l' = tokens l \<and> lines l' = lines l \<and> cursor l \<le> cursor l'"
proof (induction arbitrary: as l' rule: GetArgs_loop.pinduct)
  case (1 tokenCode manager loader args endOfList)
  show ?case
  proof (cases "\<not> IsAtEnd loader \<and> \<not> endOfList")
    case False
    with "1.prems" "1.hyps" show ?thesis by (simp add: GetArgs_loop.psimps)
  next
    case True
    obtain t l1 where g: "GetTokenType loader = (t, l1)" by (cases "GetTokenType loader")
    note f1 = GetTokenType_frame[OF g]
    note eq = "1.prems"[unfolded GetArgs_loop.psimps[OF "1.hyps"], simplified True g, simplified]
    note ih = "1.IH"[OF True g[symmetric]]
    consider (c_end) "t = LINE_END \<or> t = SET_END" | (c_empty) "t = EMPTY" | (c_begin) "t = SET_BEGIN"
      | (c_label) "t = LABEL" | (c_simple) "t = STRING \<or> t = ENUM \<or> t = REAL \<or> t = INTEGER \<or> t = REF"
      | (c_other) "t = UNKNOWN"
      by (cases t) auto
    note cs = this
    from True have e: "endOfList = False" by simp
    show ?thesis using cs
    proof cases
      case c_end
      with eq ih(1) f1 show ?thesis by auto
    next
      case c_empty
      with eq ih(2) f1 e show ?thesis by auto
    next
      case c_begin
      with eq obtain inner l2 where
        a: "GetArgs_loop tokenCode manager l1 [] False = Inr (inner, l2)" and
        b: "GetArgs_loop tokenCode manager l2 (args @ [ArgList inner]) endOfList = Inr (as, l')"
        by (auto split: sum.splits simp: e)
      from c_begin ih(3)[OF _ _ _ a]
      have "tokens l2 = tokens l1 \<and> lines l2 = lines l1 \<and> cursor l1 \<le> cursor l2" by simp
      moreover from c_begin ih(4)[OF _ _ _ a refl b]
      have "tokens l' = tokens l2 \<and> lines l' = lines l2 \<and> cursor l2 \<le> cursor l'" by simp
      ultimately show ?thesis using f1 by simp
    next
      case c_label
      with eq obtain s l2 inner l4 where
        a: "GetStringArgument (StepBack l1) = Inr (s, l2)" and
        b: "GetArgs_loop tokenCode manager (snd (GetTokenType l2)) [] False = Inr (inner, l4)" and
        c: "GetArgs_loop tokenCode manager l4 (args @ [ArgObject
              (obj_insert (''value'', ArgList inner)
                (obj_insert (''typecode'', ArgSimple (VUInt32 (IfcTypeToTypeCode manager s)))
                  (obj_insert (''type'', ArgSimple (VLong (tokenCode t))) [])))]) endOfList = Inr (as, l')"
        by (auto split: sum.splits simp: e Let_def)
      note f2 = GetStringArgument_frame[OF a] StepBack_frame[of l1]
      obtain t3 l3 where g3: "GetTokenType l2 = (t3, l3)" by (cases "GetTokenType l2")
      note f3 = GetTokenType_frame[OF g3]
      from c_label ih(5)[OF _ _ _ _ refl a refl refl refl refl b]
      have "tokens l4 = tokens l3 \<and> lines l4 = lines l3 \<and> cursor l3 \<le> cursor l4" by (simp add: g3)
      moreover from c_label ih(6)[OF _ _ _ _ refl a refl refl refl refl b refl refl c]
      have "tokens l' = tokens l4 \<and> lines l' = lines l4 \<and> cursor l4 \<le> cursor l'" by simp
      ultimately show ?thesis using f1 f2 f3 by simp
    next
      case c_simple
      with eq obtain v p where
        a: "ReadValue (Some (StepBack l1)) t = Inr (v, p)" and
        b: "GetArgs_loop tokenCode manager (case p of Some l2 \<Rightarrow> l2 | None \<Rightarrow> StepBack l1)
              (args @ [ArgSimple v]) endOfList = Inr (as, l')"
        by (auto split: sum.splits simp: e)
      from ReadValue_frame[OF a c_simple] obtain l2 where
        p: "p = Some l2" and f2: "tokens l2 = tokens (StepBack l1)" "lines l2 = lines (StepBack l1)"
          "cursor l2 = cursor (StepBack l1) + 1" by auto
      have nl: "\<not> (t = LINE_END \<or> t = SET_END)" "t \<noteq> EMPTY" "t \<noteq> SET_BEGIN" "t \<noteq> LABEL"
        using c_simple by auto
      from ih(7)[OF nl c_simple a refl b]
      have "tokens l' = tokens l2 \<and> lines l' = lines l2 \<and> cursor l2 \<le> cursor l'" by (simp add: p)
      then show ?thesis using f1 f2 StepBack_frame[of l1] by simp
    next
      case c_other
      with eq ih(8) f1 e show ?thesis by auto
    qed
  qed
qed

lemma GetTokenType_frame_sym:
  "(t, l') = GetTokenType l \<Longrightarrow> tokens l' = tokens l \<and> lines l' = lines l \<and> cursor l' = cursor l + 1"
  using GetTokenType_frame[of l t l'] by simp

lemma snd_GetTokenType_frame:
  "tokens (snd (GetTokenType l)) = tokens l \<and> lines (snd (GetTokenType l)) = lines l \<and>
   cursor (snd (GetTokenType l)) = cursor l + 1"
  using GetTokenType_frame[of l "fst (GetTokenType l)" "snd (GetTokenType l)"] by simp

termination GetArgs_loop
proof (relation "measure (\<lambda>(tokenCode, m, l, args, e). length (tokens l) - cursor l)", goal_cases)
  case 1
  show ?case by simp
next
  case (2 tokenCode manager loader args endOfList x y)
  then show ?case by (auto simp: IsAtEnd_def dest!: GetTokenType_frame_sym)
next
  case (3 tokenCode manager loader args endOfList x y)
  then show ?case by (auto simp: IsAtEnd_def dest!: GetTokenType_frame_sym)
next
  case (4 tokenCode manager loader args endOfList x y)
  then show ?case by (auto simp: IsAtEnd_def dest!: GetTokenType_frame_sym)
next
  case (5 tokenCode manager loader args endOfList x y b xa ya)
  from 5 have f1: "tokens y = tokens loader" "cursor y = cursor loader + 1"
    by (auto dest!: GetTokenType_frame_sym)
  from 5 have "GetArgs_loop tokenCode manager y [] False = Inr (xa, ya)" by simp
  moreover from 5 have "GetArgs_loop_dom (tokenCode, manager, y, [], False)" by simp
  ultimately have "cursor y \<le> cursor ya \<and> tokens ya = tokens y"
    using GetArgs_loop_frame_dom by blast
  with f1 5 show ?case by (auto simp: IsAtEnd_def)
next
  case 6
  then show ?case
    by (auto simp: IsAtEnd_def snd_GetTokenType_frame StepBack_frame
        dest!: GetTokenType_frame_sym GetStringArgument_frame)
next
  case (7 tokenCode manager loader args endOfList x y xa b xb ya xc xd xe ba xf yb xg)
  from 7 have f1: "tokens y = tokens loader" "cursor y = cursor loader + 1"
    by (auto dest!: GetTokenType_frame_sym)
  from 7 have "GetStringArgument (StepBack y) = Inr (xb, ya)" by simp
  note f2 = GetStringArgument_frame[OF this] StepBack_frame[of y]
  from 7 have f3: "tokens xe = tokens ya" "cursor xe = cursor ya + 1"
    by (simp_all add: snd_GetTokenType_frame)
  from 7 have "GetArgs_loop tokenCode manager xe [] False = Inr (xf, yb)" by simp
  moreover from 7 have "GetArgs_loop_dom (tokenCode, manager, xe, [], False)" by simp
  ultimately have "cursor xe \<le> cursor yb \<and> tokens yb = tokens xe"
    using GetArgs_loop_frame_dom by blast
  with f1 f2 f3 7 show ?case by (auto simp: IsAtEnd_def)
next
  case (8 tokenCode manager loader args endOfList x y b xa ya)
  from 8 have f1: "tokens y = tokens loader" "cursor y = cursor loader + 1"
    by (auto dest!: GetTokenType_frame_sym)
  from 8 have a: "ReadValue (Some (StepBack y)) x = Inr (xa, ya)" by simp
  from 8 have b: "x = STRING \<or> x = ENUM \<or> x = REAL \<or> x = INTEGER \<or> x = REF" by simp
  from ReadValue_frame[OF a b] f1 StepBack_frame[of y] 8(1) show ?case
    by (auto simp: IsAtEnd_def)
next
  case (9 tokenCode manager loader args endOfList x y)
  then show ?case by (auto simp: IsAtEnd_def dest!: GetTokenType_frame_sym)
qed

declare GetArgs_loop.simps [simp del]

definition GetArgs ::
  "(IfcTokenType \<Rightarrow> int) \<Rightarrow> ModelManager \<Rightarrow> IfcLoader
   \<Rightarrow> error + (IfcArgumentList \<times> IfcLoader)" where
  "GetArgs tokenCode manager loader = GetArgs_loop tokenCode manager loader [] False"

section \<open>The record assembler\<close>

text \<open>\<^verbatim>\<open>GetRawLineData(loader, modelID, manager, expressID)\<close>.\<close>

definition GetRawLineData ::
  "(IfcTokenType \<Rightarrow> int) \<Rightarrow> IfcLoader \<Rightarrow> int \<Rightarrow> ModelManager \<Rightarrow> 32 word
   \<Rightarrow> error + (IfcRawLine \<times> IfcLoader)" where
  "GetRawLineData tokenCode loader modelID manager expressID =
     (if \<not> IsModelOpen manager modelID then Inr (IfcRawLine_default, loader)
      else if \<not> IsValidExpressID loader expressID then Inr (IfcRawLine_default, loader)
      else
        (let lineType = GetLineType loader expressID in
         if lineType = 0 then Inr (IfcRawLine_default, loader)
         else
           (case GetArgs tokenCode manager (MoveToArgumentOffset loader expressID) of
              Inl e \<Rightarrow> Inl e
            | Inr (args, l') \<Rightarrow>
                Inr (IfcRawLine_default
                       \<lparr>ID := Some expressID, type := Some lineType, arguments := ArgList args\<rparr>,
                     l'))))"

text \<open>
  \<^verbatim>\<open>GetRawLinesData\<close>: the range-based \<^verbatim>\<open>for\<close> loop over \<^verbatim>\<open>expressIDs\<close>, with the vector
  \<^verbatim>\<open>result\<close> built by \<^verbatim>\<open>push_back\<close>.
\<close>

fun GetRawLinesData_loop ::
  "(IfcTokenType \<Rightarrow> int) \<Rightarrow> IfcLoader \<Rightarrow> int \<Rightarrow> ModelManager \<Rightarrow> 32 word list
   \<Rightarrow> IfcRawLine list \<Rightarrow> error + (IfcRawLine list \<times> IfcLoader)" where
  "GetRawLinesData_loop tokenCode loader modelID manager [] result = Inr (result, loader)"
| "GetRawLinesData_loop tokenCode loader modelID manager (i # expressIDs) result =
     (case GetRawLineData tokenCode loader modelID manager i of
        Inl e \<Rightarrow> Inl e
      | Inr (r, l') \<Rightarrow>
          GetRawLinesData_loop tokenCode l' modelID manager expressIDs (result @ [r]))"

definition GetRawLinesData ::
  "(IfcTokenType \<Rightarrow> int) \<Rightarrow> IfcLoader \<Rightarrow> int \<Rightarrow> ModelManager \<Rightarrow> 32 word list
   \<Rightarrow> error + (IfcRawLine list \<times> IfcLoader)" where
  "GetRawLinesData tokenCode loader modelID manager expressIDs =
     GetRawLinesData_loop tokenCode loader modelID manager expressIDs []"

section \<open>The debug decoder of the test driver (cpp-ifc-test.cpp)\<close>

text \<open>
  \<^verbatim>\<open>std::to_string\<close> on a \<^verbatim>\<open>long\<close> and on a \<^verbatim>\<open>uint32_t\<close>: the decimal digits, with a minus
  sign for a negative number.
\<close>

definition digit_char :: "nat \<Rightarrow> char" where
  "digit_char d = char_of (48 + d)"

fun digits :: "nat \<Rightarrow> string" where
  "digits n = (if n < 10 then [digit_char n] else digits (n div 10) @ [digit_char (n mod 10)])"

declare digits.simps [simp del]

definition to_string_long :: "int \<Rightarrow> string" where
  "to_string_long i = (if i < 0 then CHR ''-'' # digits (nat (- i)) else digits (nat i))"

definition to_string_uint32 :: "32 word \<Rightarrow> string" where
  "to_string_uint32 r = digits (unat r)"

text \<open>
  The test driver's \<^verbatim>\<open>ReadValue(loader, t)\<close>: the loader is passed by reference and every
  payload is returned as a string.
\<close>

definition test_ReadValue :: "IfcLoader \<Rightarrow> IfcTokenType \<Rightarrow> error + (string \<times> IfcLoader)" where
  "test_ReadValue loader t =
     (case t of
        STRING \<Rightarrow> GetDecodedStringArgument loader
      | ENUM \<Rightarrow>
          (case GetStringArgument loader of
             Inl e \<Rightarrow> Inl e
           | Inr (s, l') \<Rightarrow> Inr (s, l'))
      | REAL \<Rightarrow>
          (case GetDoubleArgumentAsString loader of
             Inl e \<Rightarrow> Inl e
           | Inr (s, l') \<Rightarrow> Inr (s, l'))
      | INTEGER \<Rightarrow>
          (case GetIntArgument loader of
             Inl e \<Rightarrow> Inl e
           | Inr (d, l') \<Rightarrow> Inr (to_string_long d, l'))
      | REF \<Rightarrow>
          (case GetRefArgument loader of
             Inl e \<Rightarrow> Inl e
           | Inr (ref, l') \<Rightarrow> Inr (to_string_uint32 ref, l'))
      | _ \<Rightarrow> Inr ('''', loader))"

text \<open>
  The test driver's \<^verbatim>\<open>GetArgs(loader, inObject, inList)\<close>, which builds a string.  In the
  branch for the scalar tokens the inner \<^verbatim>\<open>std::string obj\<close> of the \<^verbatim>\<open>else\<close> block hides the
  outer one: what that block builds (\<open>shadow\<close>) is dropped and the outer \<^verbatim>\<open>obj\<close>, still
  empty, is appended.
\<close>

function test_GetArgs_loop ::
  "IfcLoader \<Rightarrow> bool \<Rightarrow> bool \<Rightarrow> string \<Rightarrow> bool \<Rightarrow> error + (string \<times> IfcLoader)" where
  "test_GetArgs_loop loader inObject inList args endOfLine =
     (if \<not> IsAtEnd loader \<and> \<not> endOfLine then
        (case GetTokenType loader of (t, l1) \<Rightarrow>
           if t = LINE_END then
             test_GetArgs_loop l1 inObject inList args True
           else if t = EMPTY then
             test_GetArgs_loop l1 inObject inList (args @ '' Empty '') endOfLine
           else if t = SET_BEGIN then
             (case test_GetArgs_loop l1 False True [] False of
                Inl e \<Rightarrow> Inl e
              | Inr (inner, l2) \<Rightarrow> test_GetArgs_loop l2 inObject inList (args @ inner) endOfLine)
           else if t = SET_END then
             test_GetArgs_loop l1 inObject inList args True
           else if t = LABEL then
             (let obj = '' type: LABEL '' in
              case GetStringArgument (StepBack l1) of
                Inl e \<Rightarrow> Inl e
              | Inr (s, l2) \<Rightarrow>
                 (let l3 = snd (GetTokenType l2)
                  in case test_GetArgs_loop l3 True False [] False of
                       Inl e \<Rightarrow> Inl e
                     | Inr (inner, l4) \<Rightarrow>
                        (let obj = obj @ ('' value '' @ inner @ '' '')
                         in test_GetArgs_loop l4 inObject inList (args @ obj) endOfLine)))
           else if t = STRING \<or> t = ENUM \<or> t = REAL \<or> t = INTEGER \<or> t = REF then
             (let l2 = StepBack l1; obj = [] in
              if inObject then
                (case test_ReadValue l2 t of
                   Inl e \<Rightarrow> Inl e
                 | Inr (v, l3) \<Rightarrow>
                     (let obj = v in test_GetArgs_loop l3 inObject inList (args @ obj) endOfLine))
              else
                (case test_ReadValue l2 t of
                   Inl e \<Rightarrow> Inl e
                 | Inr (v, l3) \<Rightarrow>
                     (let shadow = [] @ '' type REF '' @ (v @ '' '')
                      in test_GetArgs_loop l3 inObject inList (args @ obj) endOfLine)))
           else
             test_GetArgs_loop l1 inObject inList args endOfLine)
      else Inr (args, loader))"
  by pat_completeness auto

lemma test_ReadValue_frame:
  "test_ReadValue l t = Inr (v, l') \<Longrightarrow> t = STRING \<or> t = ENUM \<or> t = REAL \<or> t = INTEGER \<or> t = REF \<Longrightarrow>
   tokens l' = tokens l \<and> lines l' = lines l \<and> cursor l' = cursor l + 1"
  by (auto simp: test_ReadValue_def GetStringArgument_def GetDecodedStringArgument_def
        GetDoubleArgumentAsString_def GetIntArgument_def GetRefArgument_def advance_def
      split: option.splits IfcToken.splits if_splits)

lemma test_GetArgs_loop_frame_dom:
  "test_GetArgs_loop_dom (l, io, il, args, e) \<Longrightarrow> test_GetArgs_loop l io il args e = Inr (s, l') \<Longrightarrow>
   tokens l' = tokens l \<and> lines l' = lines l \<and> cursor l \<le> cursor l'"
proof (induction arbitrary: s l' rule: test_GetArgs_loop.pinduct)
  case (1 loader inObject inList args endOfLine)
  show ?case
  proof (cases "\<not> IsAtEnd loader \<and> \<not> endOfLine")
    case False
    with "1.prems" "1.hyps" show ?thesis by (simp add: test_GetArgs_loop.psimps)
  next
    case True
    obtain t l1 where g: "GetTokenType loader = (t, l1)" by (cases "GetTokenType loader")
    note f1 = GetTokenType_frame[OF g]
    note eq = "1.prems"[unfolded test_GetArgs_loop.psimps[OF "1.hyps"], simplified True g, simplified]
    note ih = "1.IH"[OF True g[symmetric]]
    from True have e: "endOfLine = False" by simp
    consider (c_end) "t = LINE_END \<or> t = SET_END" | (c_empty) "t = EMPTY" | (c_begin) "t = SET_BEGIN"
      | (c_label) "t = LABEL" | (c_simple) "t = STRING \<or> t = ENUM \<or> t = REAL \<or> t = INTEGER \<or> t = REF"
      | (c_other) "t = UNKNOWN"
      by (cases t) auto
    then show ?thesis
    proof cases
      case c_end
      then show ?thesis
      proof
        assume t: "t = LINE_END"
        with eq have "test_GetArgs_loop l1 inObject inList args True = Inr (s, l')" by simp
        from ih(1)[OF t this] f1 show ?thesis by simp
      next
        assume "t = SET_END"
        then have nl: "t \<noteq> LINE_END" "t \<noteq> EMPTY" "t \<noteq> SET_BEGIN" "t = SET_END" by simp_all
        with eq have "test_GetArgs_loop l1 inObject inList args True = Inr (s, l')" by simp
        from ih(5)[OF nl this] f1 show ?thesis by simp
      qed
    next
      case c_empty
      then have nl: "t \<noteq> LINE_END" "t = EMPTY" by simp_all
      with eq have "test_GetArgs_loop l1 inObject inList (args @ '' Empty '') endOfLine = Inr (s, l')"
        by (simp add: e)
      from ih(2)[OF nl this] f1 show ?thesis by simp
    next
      case c_begin
      then have nl: "t \<noteq> LINE_END" "t \<noteq> EMPTY" "t = SET_BEGIN" by simp_all
      from c_begin eq obtain inner l2 where
        a: "test_GetArgs_loop l1 False True [] False = Inr (inner, l2)" and
        b: "test_GetArgs_loop l2 inObject inList (args @ inner) endOfLine = Inr (s, l')"
        by (auto split: sum.splits simp: e)
      from ih(3)[OF nl a]
      have "tokens l2 = tokens l1 \<and> lines l2 = lines l1 \<and> cursor l1 \<le> cursor l2" .
      moreover from ih(4)[OF nl a refl b]
      have "tokens l' = tokens l2 \<and> lines l' = lines l2 \<and> cursor l2 \<le> cursor l'" .
      ultimately show ?thesis using f1 by simp
    next
      case c_label
      then have nl: "t \<noteq> LINE_END" "t \<noteq> EMPTY" "t \<noteq> SET_BEGIN" "t \<noteq> SET_END" "t = LABEL"
        by simp_all
      from c_label eq obtain nm l2 inner l4 where
        a: "GetStringArgument (StepBack l1) = Inr (nm, l2)" and
        b: "test_GetArgs_loop (snd (GetTokenType l2)) True False [] False = Inr (inner, l4)" and
        c: "test_GetArgs_loop l4 inObject inList
              (args @ '' type: LABEL '' @ '' value '' @ inner @ '' '') endOfLine = Inr (s, l')"
        by (auto split: sum.splits simp: e Let_def)
      note f2 = GetStringArgument_frame[OF a] StepBack_frame[of l1]
      note f3 = snd_GetTokenType_frame[of l2]
      from ih(6)[OF nl refl a refl refl b]
      have "tokens l4 = tokens (snd (GetTokenType l2)) \<and> lines l4 = lines (snd (GetTokenType l2)) \<and>
          cursor (snd (GetTokenType l2)) \<le> cursor l4" .
      moreover from ih(7)[OF nl refl a refl refl b refl refl c]
      have "tokens l' = tokens l4 \<and> lines l' = lines l4 \<and> cursor l4 \<le> cursor l'" .
      ultimately show ?thesis using f1 f2 f3 by simp
    next
      case c_simple
      then have nl: "t \<noteq> LINE_END" "t \<noteq> EMPTY" "t \<noteq> SET_BEGIN" "t \<noteq> SET_END" "t \<noteq> LABEL"
        by auto
      from c_simple eq obtain v l3 where
        a: "test_ReadValue (StepBack l1) t = Inr (v, l3)" and
        b: "test_GetArgs_loop l3 inObject inList (args @ (if inObject then v else [])) endOfLine = Inr (s, l')"
        by (auto split: sum.splits if_splits simp: e Let_def)
      note f2 = test_ReadValue_frame[OF a c_simple] StepBack_frame[of l1]
      have "tokens l' = tokens l3 \<and> lines l' = lines l3 \<and> cursor l3 \<le> cursor l'"
      proof (cases inObject)
        case True
        with b have "test_GetArgs_loop l3 inObject inList (args @ v) endOfLine = Inr (s, l')" by simp
        from ih(8)[OF nl c_simple refl refl True a refl refl this] show ?thesis .
      next
        case False
        with b have "test_GetArgs_loop l3 inObject inList (args @ []) endOfLine = Inr (s, l')" by simp
        from ih(9)[OF nl c_simple refl refl False a refl refl this] show ?thesis .
      qed
      then show ?thesis using f1 f2 by simp
    next
      case c_other
      then have nl: "t \<noteq> LINE_END" "t \<noteq> EMPTY" "t \<noteq> SET_BEGIN" "t \<noteq> SET_END" "t \<noteq> LABEL"
        "\<not> (t = STRING \<or> t = ENUM \<or> t = REAL \<or> t = INTEGER \<or> t = REF)" by simp_all
      with eq have "test_GetArgs_loop l1 inObject inList args endOfLine = Inr (s, l')"
        by (simp add: e)
      from ih(10)[OF nl this] f1 show ?thesis by simp
    qed
  qed
qed

termination test_GetArgs_loop
proof (relation "measure (\<lambda>(l, io, il, args, e). length (tokens l) - cursor l)", goal_cases)
  case 1
  show ?case by simp
next
  case 2
  then show ?case by (auto simp: IsAtEnd_def dest!: GetTokenType_frame_sym)
next
  case 3
  then show ?case by (auto simp: IsAtEnd_def dest!: GetTokenType_frame_sym)
next
  case 4
  then show ?case by (auto simp: IsAtEnd_def dest!: GetTokenType_frame_sym)
next
  case (5 loader inObject inList args endOfLine x y b xa ya)
  from 5 have f1: "tokens y = tokens loader" "cursor y = cursor loader + 1"
    by (auto dest!: GetTokenType_frame_sym)
  from 5 have "test_GetArgs_loop y False True [] False = Inr (xa, ya)" by simp
  moreover from 5 have "test_GetArgs_loop_dom (y, False, True, [], False)" by simp
  ultimately have "cursor y \<le> cursor ya \<and> tokens ya = tokens y"
    using test_GetArgs_loop_frame_dom by blast
  with f1 5 show ?case by (auto simp: IsAtEnd_def)
next
  case 6
  then show ?case by (auto simp: IsAtEnd_def dest!: GetTokenType_frame_sym)
next
  case 7
  then show ?case
    by (auto simp: IsAtEnd_def snd_GetTokenType_frame StepBack_frame
        dest!: GetTokenType_frame_sym GetStringArgument_frame)
next
  case (8 loader inObject inList args endOfLine x y xa b xb ya xc ba xd yb xe)
  from 8 have f1: "tokens y = tokens loader" "cursor y = cursor loader + 1"
    by (auto dest!: GetTokenType_frame_sym)
  from 8 have "GetStringArgument (StepBack y) = Inr (xb, ya)" by simp
  note f2 = GetStringArgument_frame[OF this] StepBack_frame[of y]
  from 8 have f3: "tokens xc = tokens ya" "cursor xc = cursor ya + 1"
    by (simp_all add: snd_GetTokenType_frame)
  from 8 have "test_GetArgs_loop xc True False [] False = Inr (xd, yb)" by simp
  moreover from 8 have "test_GetArgs_loop_dom (xc, True, False, [], False)" by simp
  ultimately have "cursor xc \<le> cursor yb \<and> tokens yb = tokens xc"
    using test_GetArgs_loop_frame_dom by blast
  with f1 f2 f3 8 show ?case by (auto simp: IsAtEnd_def)
next
  case (9 loader inObject inList args endOfLine x y xa xb b xc ya xd)
  from 9 have f1: "tokens y = tokens loader" "cursor y = cursor loader + 1"
    by (auto dest!: GetTokenType_frame_sym)
  from 9 have a: "test_ReadValue (StepBack y) x = Inr (xc, ya)" by simp
  from 9 have b: "x = STRING \<or> x = ENUM \<or> x = REAL \<or> x = INTEGER \<or> x = REF" by simp
  from test_ReadValue_frame[OF a b] f1 StepBack_frame[of y] 9(1) show ?case
    by (auto simp: IsAtEnd_def)
next
  case (10 loader inObject inList args endOfLine x y xa xb b xc ya xd)
  from 10 have f1: "tokens y = tokens loader" "cursor y = cursor loader + 1"
    by (auto dest!: GetTokenType_frame_sym)
  from 10 have a: "test_ReadValue (StepBack y) x = Inr (xc, ya)" by simp
  from 10 have b: "x = STRING \<or> x = ENUM \<or> x = REAL \<or> x = INTEGER \<or> x = REF" by simp
  from test_ReadValue_frame[OF a b] f1 StepBack_frame[of y] 10(1) show ?case
    by (auto simp: IsAtEnd_def)
next
  case 11
  then show ?case by (auto simp: IsAtEnd_def dest!: GetTokenType_frame_sym)
qed

declare test_GetArgs_loop.simps [simp del]

definition test_GetArgs :: "IfcLoader \<Rightarrow> bool \<Rightarrow> bool \<Rightarrow> error + (string \<times> IfcLoader)" where
  "test_GetArgs loader inObject inList = test_GetArgs_loop loader inObject inList [] False"

section \<open>Auxiliary definitions for the statements\<close>

text \<open>
  What \<open>ReadValue\<close> makes of a token of one of the five scalar classifications, read off
  its \<^verbatim>\<open>switch\<close>.
\<close>

fun simple_value :: "IfcToken \<Rightarrow> IfcSimpleValueVariant" where
  "simple_value (T_STRING raw dec) = VString dec"
| "simple_value (T_ENUM s) =
     (if s = ''T'' then VBool True else if s = ''F'' then VBool False
      else if s = ''U'' then Monostate else VString s)"
| "simple_value (T_REAL d s) = VDouble d"
| "simple_value (T_INTEGER i) = VLong i"
| "simple_value (T_REF r) = VUInt32 r"
| "simple_value _ = Monostate"

text \<open>
  What the test driver's \<open>ReadValue\<close> makes of a token of one of the five scalar
  classifications.
\<close>

fun test_text :: "IfcToken \<Rightarrow> string" where
  "test_text (T_STRING raw dec) = dec"
| "test_text (T_ENUM s) = s"
| "test_text (T_REAL d s) = s"
| "test_text (T_INTEGER i) = to_string_long i"
| "test_text (T_REF r) = to_string_uint32 r"
| "test_text _ = []"

text \<open>A decode result with a list of arguments put in front.\<close>

definition prepend_args ::
  "IfcArgumentList \<Rightarrow> error + (IfcArgumentList \<times> IfcLoader) \<Rightarrow> error + (IfcArgumentList \<times> IfcLoader)" where
  "prepend_args as r = (case r of Inl e \<Rightarrow> Inl e | Inr (bs, l') \<Rightarrow> Inr (as @ bs, l'))"

section \<open>Token streams as the specification describes them\<close>

text \<open>The tokens from the cursor on, and the loader moved on by \<open>n\<close> tokens.\<close>

definition remaining :: "IfcLoader \<Rightarrow> IfcToken list" where
  "remaining l = drop (cursor l) (tokens l)"

definition skip :: "nat \<Rightarrow> IfcLoader \<Rightarrow> IfcLoader" where
  "skip n l = l\<lparr>cursor := cursor l + n\<rparr>"

text \<open>
  The definitions up to \<open>is_argument_of\<close> follow the specification, not the source.

  Section 4.2, rule 2: a RECORD-END or a LIST-END terminates the current list, and a
  LIST-BEGIN opens a nested one.  \<open>after_list d ts\<close> are the tokens behind the terminator
  that closes the current list, when \<open>d\<close> lists nested in it are still open.
\<close>

fun after_list :: "nat \<Rightarrow> IfcToken list \<Rightarrow> IfcToken list" where
  "after_list d [] = []"
| "after_list d (tok # ts) =
     (if tok = T_SET_BEGIN then after_list (Suc d) ts
      else if tok = T_SET_END \<or> tok = T_LINE_END then
        (case d of 0 \<Rightarrow> ts | Suc d' \<Rightarrow> after_list d' ts)
      else after_list d ts)"

text \<open>
  Section 4.2, rule 5: the token that follows a TYPED-LABEL must be the LIST-BEGIN that
  opens the label's value list.  \<open>labels_open 0 ts\<close> says so of every label of the current
  list, the lists nested in it included, up to the terminator that closes it (or the end
  of the stream).
\<close>

fun labels_open :: "nat \<Rightarrow> IfcToken list \<Rightarrow> bool" where
  "labels_open d [] = True"
| "labels_open d (tok # ts) =
     (if tok = T_SET_BEGIN then labels_open (Suc d) ts
      else if tok = T_SET_END \<or> tok = T_LINE_END then
        (case d of 0 \<Rightarrow> True | Suc d' \<Rightarrow> labels_open d' ts)
      else if tokenType tok = LABEL then take 1 ts = [T_SET_BEGIN] \<and> labels_open d ts
      else labels_open d ts)"

lemma length_after_list: "length (after_list d ts) \<le> length ts"
  by (induction ts arbitrary: d) (auto split: nat.splits intro: le_SucI)

text \<open>
  The top-level argument tokens of the current list, in source order: the tokens that
  rules 3 to 6 of section 4.2 turn into an argument (EMPTY, LIST-BEGIN, TYPED-LABEL and
  the five scalar classifications) and that stand outside every nested list, up to the
  terminator that closes the list or the end of the stream.  The tokens of a nested list
  belong to its LIST-BEGIN, a LIST-BEGIN right behind a label belongs to the label, and
  an unrecognized token (rule 7) is no argument token.
\<close>

function top_level :: "IfcToken list \<Rightarrow> IfcToken list" where
  "top_level [] = []"
| "top_level (tok # ts) =
     (if tok = T_SET_END \<or> tok = T_LINE_END then []
      else if tok = T_SET_BEGIN then tok # top_level (after_list 0 ts)
      else if tokenType tok = LABEL then
        (if take 1 ts = [T_SET_BEGIN] then tok # top_level (after_list 0 (drop 1 ts))
         else tok # top_level ts)
      else if tok = T_UNKNOWN then top_level ts
      else tok # top_level ts)"
  by pat_completeness auto
termination top_level
proof (relation "measure length", goal_cases)
  case 1
  show ?case by simp
next
  case (2 tok ts)
  show ?case using length_after_list[of 0 ts] by simp
next
  case (3 tok ts)
  show ?case using length_after_list[of 0 "drop 1 ts"] by simp
qed simp_all

declare top_level.simps(2) [simp del]

text \<open>
  The argument that a top-level argument token stands for (section 4.2, rules 3 to 5, and
  section 4.3): the null scalar for EMPTY, the scalar of section 4.3 for a scalar token,
  some list for a LIST-BEGIN, and for a label an object with exactly the keys \<^verbatim>\<open>type\<close>,
  \<^verbatim>\<open>typecode\<close> and \<^verbatim>\<open>value\<close>, the codes of the label and a list under \<^verbatim>\<open>value\<close>.
\<close>

fun is_argument_of :: "(IfcTokenType \<Rightarrow> int) \<Rightarrow> ModelManager \<Rightarrow> IfcToken \<Rightarrow> IfcArgument \<Rightarrow> bool" where
  "is_argument_of tokenCode manager T_EMPTY a = (a = ArgSimple Monostate)"
| "is_argument_of tokenCode manager (T_STRING raw dec) a = (a = ArgSimple (VString dec))"
| "is_argument_of tokenCode manager (T_ENUM s) a =
     (a = ArgSimple (if s = ''T'' then VBool True else if s = ''F'' then VBool False
                     else if s = ''U'' then Monostate else VString s))"
| "is_argument_of tokenCode manager (T_REAL d s) a = (a = ArgSimple (VDouble d))"
| "is_argument_of tokenCode manager (T_INTEGER i) a = (a = ArgSimple (VLong i))"
| "is_argument_of tokenCode manager (T_REF r) a = (a = ArgSimple (VUInt32 r))"
| "is_argument_of tokenCode manager T_SET_BEGIN a = (case a of ArgList xs \<Rightarrow> True | _ \<Rightarrow> False)"
| "is_argument_of tokenCode manager (T_LABEL s) a =
     (case a of
        ArgObject obj \<Rightarrow>
          fst ` set obj = {''type'', ''typecode'', ''value''} \<and> distinct (map fst obj) \<and>
          map_of obj ''type'' = Some (ArgSimple (VLong (tokenCode LABEL))) \<and>
          map_of obj ''typecode'' = Some (ArgSimple (VUInt32 (IfcTypeToTypeCode manager s))) \<and>
          (case map_of obj ''value'' of Some (ArgList xs) \<Rightarrow> True | _ \<Rightarrow> False)
      | _ \<Rightarrow> False)"
| "is_argument_of tokenCode manager tok a = False"

text \<open>
  An object as the specification wants every object: exactly the keys \<^verbatim>\<open>type\<close>,
  \<^verbatim>\<open>typecode\<close> and \<^verbatim>\<open>value\<close>, a list under \<^verbatim>\<open>value\<close>, and so for everything below.
\<close>

fun well_keyed :: "IfcArgument \<Rightarrow> bool" where
  "well_keyed (ArgSimple v) = True"
| "well_keyed (ArgList as) = list_all well_keyed as"
| "well_keyed (ArgObject obj) =
     (fst ` set obj = {''type'', ''typecode'', ''value''} \<and> distinct (map fst obj) \<and>
      (case map_of obj ''value'' of Some (ArgList inner) \<Rightarrow> True | _ \<Rightarrow> False) \<and>
      list_all (\<lambda>kv. well_keyed (snd kv)) obj)"

section \<open>Further definitions for the statements\<close>

text \<open>
  \<open>n + 1\<close> lists inside one another, innermost empty: the decoded value and the tokens.
\<close>

fun nestedList :: "nat \<Rightarrow> IfcArgument" where
  "nestedList 0 = ArgList []"
| "nestedList (Suc n) = ArgList [nestedList n]"

definition nestedStream :: "nat \<Rightarrow> IfcToken list" where
  "nestedStream n = replicate (Suc n) T_SET_BEGIN @ replicate (Suc n) T_SET_END"

text \<open>A stream with the two terminators exchanged throughout.\<close>

definition swap_terminator :: "IfcToken \<Rightarrow> IfcToken" where
  "swap_terminator tok =
     (if tok = T_SET_END then T_LINE_END else if tok = T_LINE_END then T_SET_END else tok)"

definition swap_terminators :: "IfcLoader \<Rightarrow> IfcLoader" where
  "swap_terminators l = l\<lparr>tokens := map swap_terminator (tokens l)\<rparr>"

text \<open>
  \<open>with_ends ends l k\<close>: the loader \<open>k\<close> reads the stream of \<open>l\<close> with the tokens \<open>ends\<close>
  appended, and stands where \<open>l\<close> stands, or both stand behind the last token of \<open>l\<close>.
\<close>

definition is_terminator :: "IfcToken \<Rightarrow> bool" where
  "is_terminator tok = (tok = T_SET_END \<or> tok = T_LINE_END)"

definition with_ends :: "IfcToken list \<Rightarrow> IfcLoader \<Rightarrow> IfcLoader \<Rightarrow> bool" where
  "with_ends ends l k =
     (tokens k = tokens l @ ends \<and> lines k = lines l \<and>
      (cursor k = cursor l \<or> (length (tokens l) \<le> cursor l \<and> length (tokens l) \<le> cursor k)))"

text \<open>
  \<open>decodes_to ts as\<close>: wherever the tokens \<open>ts\<close> stand under the cursor, \<open>GetArgs\<close> reads
  them as the arguments \<open>as\<close> and goes on behind them.
\<close>

definition decodes_to :: "(IfcTokenType \<Rightarrow> int) \<Rightarrow> ModelManager \<Rightarrow> IfcToken list \<Rightarrow> IfcArgumentList \<Rightarrow> bool" where
  "decodes_to tokenCode m ts as =
     (\<forall>l post. remaining l = ts @ post \<longrightarrow>
        GetArgs tokenCode m l = prepend_args as (GetArgs tokenCode m (skip (length ts) l)))"

section \<open>A small model and file for the concrete instances\<close>

text \<open>
  A registry with no open model, one where model 0 is open, and a loader holding the
  argument sections of two records:
  \<^verbatim>\<open>#5 = ...(7, (.T., $), IFCBOOLEAN(.F.));\<close> and \<^verbatim>\<open>#7 = ...(#5);\<close>.  Identifier 9 is
  present with type code 0, identifier 999 is absent.
\<close>

definition closedManager :: ModelManager where
  "closedManager = \<lparr>IsModelOpen = (\<lambda>modelID. False), IfcTypeToTypeCode = (\<lambda>s. 0)\<rparr>"

definition openManager :: ModelManager where
  "openManager =
     \<lparr>IsModelOpen = (\<lambda>modelID. modelID = 0),
      IfcTypeToTypeCode = (\<lambda>s. if s = ''IFCBOOLEAN'' then 42 else 0)\<rparr>"

definition exampleCode :: "IfcTokenType \<Rightarrow> int" where
  "exampleCode t = (if t = LABEL then 2 else 0)"

definition exampleLoader :: IfcLoader where
  "exampleLoader =
     \<lparr>tokens =
        [T_INTEGER 7, T_SET_BEGIN, T_ENUM ''T'', T_EMPTY, T_SET_END,
         T_LABEL ''IFCBOOLEAN'', T_SET_BEGIN, T_ENUM ''F'', T_SET_END, T_SET_END, T_LINE_END,
         T_REF 5, T_SET_END, T_LINE_END],
      cursor = 0,
      lines =
        [(5, \<lparr>lineType = 100, argumentStart = 0\<rparr>),
         (7, \<lparr>lineType = 200, argumentStart = 11\<rparr>),
         (9, \<lparr>lineType = 0, argumentStart = 0\<rparr>)]\<rparr>"

section \<open>One iteration of the loop, by the token under the cursor\<close>

lemma StepBack_advance [simp]: "StepBack (advance l) = l"
  by (simp add: StepBack_def advance_def)

lemma current_not_at_end: "current l = Some tok \<Longrightarrow> \<not> IsAtEnd l"
  by (auto simp: current_def IsAtEnd_def split: if_splits)

lemma at_end_current: "IsAtEnd l \<Longrightarrow> current l = None"
  by (auto simp: current_def IsAtEnd_def)

lemma GetTokenType_current: "current l = Some tok \<Longrightarrow> GetTokenType l = (tokenType tok, advance l)"
  by (simp add: GetTokenType_def)

lemma snd_GetTokenType [simp]: "snd (GetTokenType l) = advance l"
  by (simp add: GetTokenType_def split: option.splits)

lemma obj_insert_three:
  "ArgObject (obj_insert (''value'', v) (obj_insert (''typecode'', c) (obj_insert (''type'', t) []))) =
   ArgObject [(''type'', t), (''typecode'', c), (''value'', v)]"
  by (simp add: obj_insert_def)

lemma loop_stop: "IsAtEnd l \<or> e \<Longrightarrow> GetArgs_loop tokenCode m l args e = Inr (args, l)"
  by (subst GetArgs_loop.simps) auto

lemma loop_terminator:
  "current l = Some tok \<Longrightarrow> tok = T_SET_END \<or> tok = T_LINE_END \<Longrightarrow>
   GetArgs_loop tokenCode m l args False = Inr (args, advance l)"
  by (subst GetArgs_loop.simps) (auto simp: current_not_at_end GetTokenType_current loop_stop)

lemma loop_empty:
  "current l = Some T_EMPTY \<Longrightarrow>
   GetArgs_loop tokenCode m l args False = GetArgs_loop tokenCode m (advance l) (args @ [ArgSimple Monostate]) False"
  by (subst GetArgs_loop.simps) (auto simp: current_not_at_end GetTokenType_current)

lemma loop_unknown:
  "current l = Some T_UNKNOWN \<Longrightarrow>
   GetArgs_loop tokenCode m l args False = GetArgs_loop tokenCode m (advance l) args False"
  by (subst GetArgs_loop.simps) (auto simp: current_not_at_end GetTokenType_current)

lemma loop_set_begin:
  "current l = Some T_SET_BEGIN \<Longrightarrow>
   GetArgs_loop tokenCode m l args False =
     (case GetArgs_loop tokenCode m (advance l) [] False of
        Inl e \<Rightarrow> Inl e
      | Inr (inner, l2) \<Rightarrow> GetArgs_loop tokenCode m l2 (args @ [ArgList inner]) False)"
  by (subst GetArgs_loop.simps) (auto simp: current_not_at_end GetTokenType_current)

lemma loop_label:
  "current l = Some (T_LABEL s) \<Longrightarrow>
   GetArgs_loop tokenCode m l args False =
     (case GetArgs_loop tokenCode m (advance (advance l)) [] False of
        Inl e \<Rightarrow> Inl e
      | Inr (inner, l4) \<Rightarrow>
          GetArgs_loop tokenCode m l4
            (args @ [ArgObject [(''type'', ArgSimple (VLong (tokenCode LABEL))),
                                (''typecode'', ArgSimple (VUInt32 (IfcTypeToTypeCode m s))),
                                (''value'', ArgList inner)]]) False)"
  by (subst GetArgs_loop.simps)
     (auto simp: current_not_at_end GetTokenType_current GetStringArgument_def obj_insert_def
        split: sum.splits)

lemma ReadValue_current:
  "current l = Some tok \<Longrightarrow> tokenType tok \<in> {STRING, ENUM, REAL, INTEGER, REF} \<Longrightarrow>
   ReadValue (Some l) (tokenType tok) = Inr (simple_value tok, Some (advance l))"
  by (cases tok)
     (auto simp: ReadValue_def GetStringArgument_def GetDecodedStringArgument_def
        GetDoubleArgument_def GetIntArgument_def GetRefArgument_def)

lemma loop_simple:
  "current l = Some tok \<Longrightarrow> tokenType tok \<in> {STRING, ENUM, REAL, INTEGER, REF} \<Longrightarrow>
   GetArgs_loop tokenCode m l args False =
     GetArgs_loop tokenCode m (advance l) (args @ [ArgSimple (simple_value tok)]) False"
  by (subst GetArgs_loop.simps)
     (auto simp: current_not_at_end GetTokenType_current ReadValue_current)

lemma advance_frame [simp]:
  "tokens (advance l) = tokens l" "lines (advance l) = lines l" "cursor (advance l) = Suc (cursor l)"
  by (simp_all add: advance_def)

lemma current_cases:
  obtains (stop) "IsAtEnd l" | (tok) tok where "current l = Some tok" "cursor l < length (tokens l)"
  by (cases "cursor l < length (tokens l)") (auto simp: current_def IsAtEnd_def)

lemma tokenType_simple_cases [case_names t_unknown t_empty t_set_begin t_terminator t_label t_simple]:
  obtains "tok = T_UNKNOWN" | "tok = T_EMPTY" | "tok = T_SET_BEGIN" | "tok = T_SET_END \<or> tok = T_LINE_END"
    | s where "tok = T_LABEL s" | "tokenType tok \<in> {STRING, ENUM, REAL, INTEGER, REF}"
  by (cases tok) auto

lemma loop_run:
  "\<exists>as l'. (\<forall>args. GetArgs_loop tokenCode m l args e = Inr (args @ as, l')) \<and>
      tokens l' = tokens l \<and> lines l' = lines l \<and> cursor l \<le> cursor l'"
proof (induction "length (tokens l) - cursor l" arbitrary: l e rule: less_induct)
  case less
  have stopped: ?case if "\<forall>args. GetArgs_loop tokenCode m l args e = Inr (args @ [], l)"
    using that by blast
  show ?case
  proof (cases e)
    case True
    then show ?thesis by (intro stopped) (simp add: loop_stop)
  next
    case False
    show ?thesis
    proof (cases l rule: current_cases)
      case stop
      then show ?thesis by (intro stopped) (simp add: loop_stop)
    next
      case (tok tok)
      have IH: "\<exists>as l'. (\<forall>args. GetArgs_loop tokenCode m k args False = Inr (args @ as, l')) \<and>
          tokens l' = tokens k \<and> lines l' = lines k \<and> cursor k \<le> cursor l'"
        if "tokens k = tokens l" "cursor l < cursor k" for k
        using less[of k False] that tok(2) by simp
      from IH[of "advance l"] obtain as1 l1 where
        r1: "\<And>args. GetArgs_loop tokenCode m (advance l) args False = Inr (args @ as1, l1)"
        and f1: "tokens l1 = tokens l" "lines l1 = lines l" "Suc (cursor l) \<le> cursor l1"
        by auto
      show ?thesis
      proof (cases tok rule: tokenType_simple_cases)
        case t_unknown
        with tok False r1 have "\<forall>args. GetArgs_loop tokenCode m l args e = Inr (args @ as1, l1)"
          by (simp add: loop_unknown)
        with f1 show ?thesis by (intro exI[of _ as1] exI[of _ l1]) simp
      next
        case t_empty
        with tok False r1
        have "\<forall>args. GetArgs_loop tokenCode m l args e = Inr (args @ (ArgSimple Monostate # as1), l1)"
          by (simp add: loop_empty)
        with f1 show ?thesis by (intro exI[of _ "ArgSimple Monostate # as1"] exI[of _ l1]) simp
      next
        case t_set_begin
        from IH[of l1] f1 obtain as2 l2 where
          r2: "\<And>args. GetArgs_loop tokenCode m l1 args False = Inr (args @ as2, l2)"
          and f2: "tokens l2 = tokens l1" "lines l2 = lines l1" "cursor l1 \<le> cursor l2"
          by auto
        from t_set_begin tok False r1[of "[]"] r2
        have "\<forall>args. GetArgs_loop tokenCode m l args e = Inr (args @ (ArgList as1 # as2), l2)"
          by (simp add: loop_set_begin)
        with f1 f2 show ?thesis by (intro exI[of _ "ArgList as1 # as2"] exI[of _ l2]) simp
      next
        case t_terminator
        with tok False have "\<forall>args. GetArgs_loop tokenCode m l args e = Inr (args @ [], advance l)"
          using loop_terminator[of l tok] by simp
        then show ?thesis by (intro exI[of _ "[]"] exI[of _ "advance l"]) simp
      next
        case (t_label s)
        from IH[of "advance (advance l)"] obtain inner l4 where
          r4: "\<And>args. GetArgs_loop tokenCode m (advance (advance l)) args False =
                 Inr (args @ inner, l4)"
          and f4: "tokens l4 = tokens l" "lines l4 = lines l" "Suc (Suc (cursor l)) \<le> cursor l4"
          by auto
        from IH[of l4] f4 obtain as5 l5 where
          r5: "\<And>args. GetArgs_loop tokenCode m l4 args False = Inr (args @ as5, l5)"
          and f5: "tokens l5 = tokens l4" "lines l5 = lines l4" "cursor l4 \<le> cursor l5"
          by auto
        let ?obj = "ArgObject [(''type'', ArgSimple (VLong (tokenCode LABEL))),
                                (''typecode'', ArgSimple (VUInt32 (IfcTypeToTypeCode m s))),
                                (''value'', ArgList inner)]"
        from t_label tok False r4[of "[]"] r5
        have "\<forall>args. GetArgs_loop tokenCode m l args e = Inr (args @ (?obj # as5), l5)"
          by (simp add: loop_label)
        with f4 f5 show ?thesis by (intro exI[of _ "?obj # as5"] exI[of _ l5]) simp
      next
        case t_simple
        with tok False r1
        have "\<forall>args. GetArgs_loop tokenCode m l args e =
                Inr (args @ (ArgSimple (simple_value tok) # as1), l1)"
          by (simp add: loop_simple)
        with f1 show ?thesis
          by (intro exI[of _ "ArgSimple (simple_value tok) # as1"] exI[of _ l1]) simp
      qed
    qed
  qed
qed

lemma prepend_args_simps [simp]:
  "prepend_args as (Inr (bs, l')) = Inr (as @ bs, l')"
  "prepend_args [] r = r"
  "prepend_args as (prepend_args bs r) = prepend_args (as @ bs) r"
  by (auto simp: prepend_args_def split: sum.splits)

lemma GetArgs_run:
  obtains as l' where "\<And>args. GetArgs_loop tokenCode m l args False = Inr (args @ as, l')"
    "GetArgs tokenCode m l = Inr (as, l')" "tokens l' = tokens l" "lines l' = lines l" "cursor l \<le> cursor l'"
proof -
  from loop_run[of tokenCode m l False] obtain as l' where
    a: "\<And>args. GetArgs_loop tokenCode m l args False = Inr (args @ as, l')"
    and b: "tokens l' = tokens l" "lines l' = lines l" "cursor l \<le> cursor l'"
    by blast
  from a[of "[]"] have "GetArgs tokenCode m l = Inr (as, l')" by (simp add: GetArgs_def)
  with a b that show ?thesis by blast
qed

lemma loop_acc: "GetArgs_loop tokenCode m l args False = prepend_args args (GetArgs tokenCode m l)"
  by (rule GetArgs_run[of tokenCode m l]) simp

lemma GetArgs_stop: "IsAtEnd l \<Longrightarrow> GetArgs tokenCode m l = Inr ([], l)"
  by (simp add: GetArgs_def loop_stop)

lemma GetArgs_terminator:
  "current l = Some tok \<Longrightarrow> tok = T_SET_END \<or> tok = T_LINE_END \<Longrightarrow> GetArgs tokenCode m l = Inr ([], advance l)"
  by (simp add: GetArgs_def loop_terminator)

lemma GetArgs_unknown: "current l = Some T_UNKNOWN \<Longrightarrow> GetArgs tokenCode m l = GetArgs tokenCode m (advance l)"
  by (simp add: GetArgs_def loop_unknown)

lemma GetArgs_empty:
  "current l = Some T_EMPTY \<Longrightarrow>
   GetArgs tokenCode m l = prepend_args [ArgSimple Monostate] (GetArgs tokenCode m (advance l))"
  by (simp add: GetArgs_def loop_empty) (simp add: loop_acc)

lemma GetArgs_simple:
  "current l = Some tok \<Longrightarrow> tokenType tok \<in> {STRING, ENUM, REAL, INTEGER, REF} \<Longrightarrow>
   GetArgs tokenCode m l = prepend_args [ArgSimple (simple_value tok)] (GetArgs tokenCode m (advance l))"
  by (simp add: GetArgs_def loop_simple) (simp add: loop_acc)

lemma GetArgs_set_begin:
  "current l = Some T_SET_BEGIN \<Longrightarrow> GetArgs tokenCode m (advance l) = Inr (inner, l2) \<Longrightarrow>
   GetArgs tokenCode m l = prepend_args [ArgList inner] (GetArgs tokenCode m l2)"
  by (simp add: GetArgs_def loop_set_begin) (simp add: loop_acc)

lemma GetArgs_label:
  "current l = Some (T_LABEL s) \<Longrightarrow> GetArgs tokenCode m (advance (advance l)) = Inr (inner, l4) \<Longrightarrow>
   GetArgs tokenCode m l =
     prepend_args [ArgObject [(''type'', ArgSimple (VLong (tokenCode LABEL))),
                              (''typecode'', ArgSimple (VUInt32 (IfcTypeToTypeCode m s))),
                              (''value'', ArgList inner)]] (GetArgs tokenCode m l4)"
  by (simp add: GetArgs_def loop_label) (simp add: loop_acc)

section \<open>A call of the decoder, by the token under the cursor\<close>

lemma skip_simps [simp]:
  "skip 0 l = l" "skip n (advance l) = skip (Suc n) l" "advance (skip n l) = skip (Suc n) l"
  "skip a (skip b l) = skip (a + b) l"
  "tokens (skip n l) = tokens l" "lines (skip n l) = lines l" "cursor (skip n l) = cursor l + n"
  by (simp_all add: skip_def advance_def)

lemma remaining_skip: "remaining l = xs @ ys \<Longrightarrow> remaining (skip (length xs) l) = ys"
  by (simp add: remaining_def skip_def add.commute[of "cursor l"] flip: drop_drop)

lemma remaining_Nil: "remaining l = [] \<Longrightarrow> IsAtEnd l"
  by (simp add: remaining_def IsAtEnd_def)

lemma remaining_Cons: "remaining l = tok # rest \<Longrightarrow> current l = Some tok"
  by (cases "cursor l < length (tokens l)")
     (auto simp: remaining_def current_def hd_drop_conv_nth[symmetric])

lemma remaining_advance: "remaining l = tok # rest \<Longrightarrow> remaining (advance l) = rest"
  using remaining_skip[of l "[tok]" rest] by (simp flip: skip_simps(2))

lemma GetArgs_cases_induct [consumes 0, case_names stop terminator unknown empty simple set_begin label]:
  assumes stop: "\<And>l. IsAtEnd l \<Longrightarrow> P l [] l"
    and terminator: "\<And>l tok. current l = Some tok \<Longrightarrow> tok = T_SET_END \<or> tok = T_LINE_END \<Longrightarrow>
          P l [] (advance l)"
    and unknown: "\<And>l as l'. current l = Some T_UNKNOWN \<Longrightarrow>
          GetArgs tokenCode m (advance l) = Inr (as, l') \<Longrightarrow> P (advance l) as l' \<Longrightarrow> P l as l'"
    and empty: "\<And>l as l'. current l = Some T_EMPTY \<Longrightarrow>
          GetArgs tokenCode m (advance l) = Inr (as, l') \<Longrightarrow> P (advance l) as l' \<Longrightarrow>
          P l (ArgSimple Monostate # as) l'"
    and simple: "\<And>l tok as l'. current l = Some tok \<Longrightarrow>
          tokenType tok \<in> {STRING, ENUM, REAL, INTEGER, REF} \<Longrightarrow>
          GetArgs tokenCode m (advance l) = Inr (as, l') \<Longrightarrow> P (advance l) as l' \<Longrightarrow>
          P l (ArgSimple (simple_value tok) # as) l'"
    and set_begin: "\<And>l inner l2 as l'. current l = Some T_SET_BEGIN \<Longrightarrow>
          GetArgs tokenCode m (advance l) = Inr (inner, l2) \<Longrightarrow> P (advance l) inner l2 \<Longrightarrow>
          GetArgs tokenCode m l2 = Inr (as, l') \<Longrightarrow> P l2 as l' \<Longrightarrow>
          P l (ArgList inner # as) l'"
    and label: "\<And>l s inner l4 as l'. current l = Some (T_LABEL s) \<Longrightarrow>
          GetArgs tokenCode m (advance (advance l)) = Inr (inner, l4) \<Longrightarrow>
          P (advance (advance l)) inner l4 \<Longrightarrow>
          GetArgs tokenCode m l4 = Inr (as, l') \<Longrightarrow> P l4 as l' \<Longrightarrow>
          P l (ArgObject [(''type'', ArgSimple (VLong (tokenCode LABEL))),
                          (''typecode'', ArgSimple (VUInt32 (IfcTypeToTypeCode m s))),
                          (''value'', ArgList inner)] # as) l'"
  shows "\<exists>as l'. GetArgs tokenCode m l = Inr (as, l') \<and> P l as l'"
proof (induction "length (tokens l) - cursor l" arbitrary: l rule: less_induct)
  case less
  show ?case
  proof (cases l rule: current_cases)
    case stop
    then show ?thesis using assms(1)[of l] by (simp add: GetArgs_stop)
  next
    case (tok tok)
    have IH: "\<exists>as l'. GetArgs tokenCode m k = Inr (as, l') \<and> P k as l'"
      if "tokens k = tokens l" "cursor l < cursor k" for k
      using less[of k] that tok(2) by simp
    from IH[of "advance l"] obtain as1 l1 where
      a1: "GetArgs tokenCode m (advance l) = Inr (as1, l1)" and p1: "P (advance l) as1 l1"
      by auto
    show ?thesis
    proof (cases tok rule: tokenType_simple_cases)
      case t_unknown
      with tok a1 p1 show ?thesis using unknown[of l as1 l1] by (simp add: GetArgs_unknown)
    next
      case t_empty
      with tok a1 p1 show ?thesis using empty[of l as1 l1] by (simp add: GetArgs_empty)
    next
      case t_set_begin
      obtain bs k where f: "GetArgs tokenCode m (advance l) = Inr (bs, k)"
        "tokens k = tokens (advance l)" "cursor (advance l) \<le> cursor k"
        by (rule GetArgs_run[of tokenCode m "advance l"]) blast
      with a1 have k: "tokens l1 = tokens l" "cursor l < cursor l1" by auto
      from IH[OF k] obtain as2 l2 where
        a2: "GetArgs tokenCode m l1 = Inr (as2, l2)" and p2: "P l1 as2 l2" by auto
      from t_set_begin tok have c: "current l = Some T_SET_BEGIN" by simp
      from set_begin[OF c a1 p1 a2 p2] GetArgs_set_begin[OF c a1] a2 show ?thesis by simp
    next
      case t_terminator
      with tok show ?thesis using terminator[of l tok] by (simp add: GetArgs_terminator)
    next
      case (t_label s)
      from IH[of "advance (advance l)"] obtain inner l4 where
        a4: "GetArgs tokenCode m (advance (advance l)) = Inr (inner, l4)"
        and p4: "P (advance (advance l)) inner l4"
        by auto
      obtain bs k where f: "GetArgs tokenCode m (advance (advance l)) = Inr (bs, k)"
        "tokens k = tokens (advance (advance l))" "cursor (advance (advance l)) \<le> cursor k"
        by (rule GetArgs_run[of tokenCode m "advance (advance l)"]) blast
      with a4 have k: "tokens l4 = tokens l" "cursor l < cursor l4" by auto
      from IH[OF k] obtain as5 l5 where
        a5: "GetArgs tokenCode m l4 = Inr (as5, l5)" and p5: "P l4 as5 l5" by auto
      from t_label tok have c: "current l = Some (T_LABEL s)" by simp
      from label[OF c a4 p4 a5 p5] GetArgs_label[OF c a4] a5 show ?thesis by simp
    next
      case t_simple
      with tok a1 p1 show ?thesis using simple[of l tok as1 l1] by (simp add: GetArgs_simple)
    qed
  qed
qed

section \<open>Lists inside one another\<close>

lemma decodes_to_Nil: "decodes_to tokenCode m [] []"
  by (simp add: decodes_to_def)

lemma inner_list:
  assumes d: "decodes_to tokenCode m ts as" and r: "remaining l = ts @ T_SET_END # post"
  shows "GetArgs tokenCode m l = Inr (as, skip (Suc (length ts)) l)"
proof -
  from r have "remaining (skip (length ts) l) = T_SET_END # post" by (rule remaining_skip)
  then have "current (skip (length ts) l) = Some T_SET_END" by (rule remaining_Cons)
  then have "GetArgs tokenCode m (skip (length ts) l) = Inr ([], advance (skip (length ts) l))"
    by (rule GetArgs_terminator) simp
  with d r show ?thesis by (simp add: decodes_to_def)
qed

lemma decodes_to_set:
  assumes "decodes_to tokenCode m ts as"
  shows "decodes_to tokenCode m (T_SET_BEGIN # ts @ [T_SET_END]) [ArgList as]"
  unfolding decodes_to_def
proof (intro allI impI)
  fix l post
  assume r: "remaining l = (T_SET_BEGIN # ts @ [T_SET_END]) @ post"
  then have c: "current l = Some T_SET_BEGIN" by (simp add: remaining_Cons)
  from r have "remaining (advance l) = ts @ T_SET_END # post"
    using remaining_advance[of l T_SET_BEGIN] by simp
  from inner_list[OF assms this]
  have "GetArgs tokenCode m (advance l) = Inr (as, skip (Suc (Suc (length ts))) l)" by simp
  from GetArgs_set_begin[OF c this]
  show "GetArgs tokenCode m l =
      prepend_args [ArgList as] (GetArgs tokenCode m (skip (length (T_SET_BEGIN # ts @ [T_SET_END])) l))"
    by simp
qed

lemma decodes_to_nested: "decodes_to tokenCode m (nestedStream n) [nestedList n]"
proof (induction n)
  case 0
  from decodes_to_set[OF decodes_to_Nil, of tokenCode m] show ?case by (simp add: nestedStream_def)
next
  case (Suc n)
  have "nestedStream (Suc n) = T_SET_BEGIN # nestedStream n @ [T_SET_END]"
    by (simp add: nestedStream_def replicate_append_same)
  with decodes_to_set[OF Suc] show ?case by simp
qed

lemma decode_nested:
  "GetArgs tokenCode m \<lparr>tokens = nestedStream n, cursor = 0, lines = ls\<rparr> =
     Inr ([nestedList n], \<lparr>tokens = nestedStream n, cursor = 2 * Suc n, lines = ls\<rparr>)"
proof -
  let ?l = "\<lparr>tokens = nestedStream n, cursor = 0, lines = ls\<rparr>"
  have r: "remaining ?l = nestedStream n @ []" by (simp add: remaining_def)
  have len: "length (nestedStream n) = 2 * Suc n" by (simp add: nestedStream_def)
  have "IsAtEnd (skip (length (nestedStream n)) ?l)" by (simp add: IsAtEnd_def)
  then have "GetArgs tokenCode m (skip (length (nestedStream n)) ?l) =
      Inr ([], skip (length (nestedStream n)) ?l)" by (rule GetArgs_stop)
  with decodes_to_nested[of tokenCode m n] r
  have "GetArgs tokenCode m ?l = Inr ([nestedList n], skip (length (nestedStream n)) ?l)"
    unfolding decodes_to_def by (metis prepend_args_simps(1) append_Nil2)
  then show ?thesis by (simp add: skip_def len)
qed

section \<open>The top-level argument tokens and the arguments decoded\<close>

lemma after_list_Suc: "after_list (Suc (d + e)) ts = after_list e (after_list d ts)"
proof (induction ts arbitrary: d)
  case Nil
  show ?case by simp
next
  case (Cons tok ts)
  show ?case
  proof (cases "tok = T_SET_BEGIN")
    case True
    with Cons[of "Suc d"] show ?thesis by simp
  next
    case False
    show ?thesis
    proof (cases "tok = T_SET_END \<or> tok = T_LINE_END")
      case True
      show ?thesis
      proof (cases d)
        case 0
        with True show ?thesis by auto
      next
        case (Suc d')
        with True Cons[of d'] show ?thesis by auto
      qed
    next
      case False
      with \<open>tok \<noteq> T_SET_BEGIN\<close> Cons[of d] show ?thesis by simp
    qed
  qed
qed

lemma after_list_twice: "after_list 0 (after_list 0 ts) = after_list (Suc 0) ts"
  using after_list_Suc[of 0 0 ts] by simp

lemma labels_open_Suc:
  "labels_open (Suc (d + e)) ts \<Longrightarrow> labels_open d ts \<and> labels_open e (after_list d ts)"
proof (induction ts arbitrary: d)
  case Nil
  show ?case by simp
next
  case (Cons tok ts)
  show ?case
  proof (cases "tok = T_SET_BEGIN")
    case True
    with Cons.prems Cons.IH[of "Suc d"] show ?thesis by simp
  next
    case False
    note nb = this
    show ?thesis
    proof (cases "tok = T_SET_END \<or> tok = T_LINE_END")
      case True
      show ?thesis
      proof (cases d)
        case 0
        with True Cons.prems show ?thesis by auto
      next
        case (Suc d')
        with True Cons.prems Cons.IH[of d'] show ?thesis by auto
      qed
    next
      case False
      with nb Cons.prems Cons.IH[of d] show ?thesis by (simp split: if_splits)
    qed
  qed
qed

lemma labels_open_inner:
  "labels_open (Suc 0) ts \<Longrightarrow> labels_open 0 ts \<and> labels_open 0 (after_list 0 ts)"
  using labels_open_Suc[of 0 0 ts] by simp

lemma current_remaining: "current l = Some tok \<Longrightarrow> remaining l = tok # remaining (advance l)"
  by (auto simp: current_def remaining_def advance_def Cons_nth_drop_Suc split: if_splits)

lemma at_end_remaining: "IsAtEnd l \<Longrightarrow> remaining l = []"
  by (simp add: IsAtEnd_def remaining_def)

lemma top_level_simps:
  "tok = T_SET_END \<or> tok = T_LINE_END \<Longrightarrow> top_level (tok # ts) = []"
  "top_level (T_SET_BEGIN # ts) = T_SET_BEGIN # top_level (after_list 0 ts)"
  "top_level (T_LABEL s # T_SET_BEGIN # ts) = T_LABEL s # top_level (after_list 0 ts)"
  "top_level (T_UNKNOWN # ts) = top_level ts"
  "top_level (T_EMPTY # ts) = T_EMPTY # top_level ts"
  "tokenType tok \<in> {STRING, ENUM, REAL, INTEGER, REF} \<Longrightarrow> top_level (tok # ts) = tok # top_level ts"
  by (auto simp: top_level.simps(2))

lemma is_argument_of_simple:
  "tokenType tok \<in> {STRING, ENUM, REAL, INTEGER, REF} \<Longrightarrow>
   is_argument_of tokenCode m tok (ArgSimple (simple_value tok))"
  by (cases tok) simp_all

lemma GetArgs_top_level:
  "\<exists>as l'. GetArgs tokenCode m l = Inr (as, l') \<and>
     (labels_open 0 (remaining l) \<longrightarrow>
        remaining l' = after_list 0 (remaining l) \<and>
        list_all2 (is_argument_of tokenCode m) (top_level (remaining l)) as)"
proof (induction rule: GetArgs_cases_induct)
  case (stop l)
  then show ?case by (simp add: at_end_remaining)
next
  case (terminator l tok)
  from current_remaining[OF terminator(1)] terminator(2) show ?case
    by (auto simp: top_level_simps)
next
  case (unknown l as l')
  from current_remaining[OF unknown(1)] unknown(3) show ?case
    by (simp add: top_level_simps)
next
  case (empty l as l')
  from current_remaining[OF empty(1)] empty(3) show ?case
    by (simp add: top_level_simps)
next
  case (simple l tok as l')
  have "tok \<noteq> T_SET_BEGIN" "tok \<noteq> T_SET_END" "tok \<noteq> T_LINE_END" "tokenType tok \<noteq> LABEL"
    using simple(2) by auto
  with current_remaining[OF simple(1)] simple(2,4) show ?case
    by (simp add: top_level_simps is_argument_of_simple)
next
  case (set_begin l inner l2 as l')
  show ?case
  proof
    assume o: "labels_open 0 (remaining l)"
    note r = current_remaining[OF set_begin(1)]
    from o r have "labels_open (Suc 0) (remaining (advance l))" by simp
    from labels_open_inner[OF this] have o1: "labels_open 0 (remaining (advance l))"
      and o2: "labels_open 0 (after_list 0 (remaining (advance l)))" by simp_all
    from o1 set_begin(3) have r2: "remaining l2 = after_list 0 (remaining (advance l))" by simp
    with o2 set_begin(5) have "remaining l' = after_list 0 (remaining l2)"
      "list_all2 (is_argument_of tokenCode m) (top_level (remaining l2)) as" by simp_all
    with r r2 show "remaining l' = after_list 0 (remaining l) \<and>
        list_all2 (is_argument_of tokenCode m) (top_level (remaining l)) (ArgList inner # as)"
      by (simp add: top_level_simps after_list_twice)
  qed
next
  case (label l s inner l4 as l')
  show ?case
  proof
    assume o: "labels_open 0 (remaining l)"
    note r = current_remaining[OF label(1)]
    from o r obtain rest where r1: "remaining (advance l) = T_SET_BEGIN # rest"
      and "labels_open 0 (remaining (advance l))"
      by (cases "remaining (advance l)") auto
    then have "labels_open (Suc 0) rest" by simp
    from labels_open_inner[OF this] have o1: "labels_open 0 rest"
      and o2: "labels_open 0 (after_list 0 rest)" by simp_all
    from r1 have r2: "remaining (advance (advance l)) = rest" by (rule remaining_advance)
    from o1 label(3) r2 have r4: "remaining l4 = after_list 0 rest" by simp
    with o2 label(5) have "remaining l' = after_list 0 (remaining l4)"
      "list_all2 (is_argument_of tokenCode m) (top_level (remaining l4)) as" by simp_all
    with r r1 r4 show "remaining l' = after_list 0 (remaining l) \<and>
        list_all2 (is_argument_of tokenCode m) (top_level (remaining l))
          (ArgObject [(''type'', ArgSimple (VLong (tokenCode LABEL))),
                      (''typecode'', ArgSimple (VUInt32 (IfcTypeToTypeCode m s))),
                      (''value'', ArgList inner)] # as)"
      by (simp add: top_level_simps after_list_twice)
  qed
qed

section \<open>The end of the stream and a terminator\<close>

lemma with_ends_inside:
  assumes "with_ends ends l k" "current l = Some tok"
  shows "current k = Some tok" "with_ends ends (advance l) (advance k)"
  using assms by (auto simp: with_ends_def current_def nth_append split: if_splits)

lemma with_ends_stop:
  assumes "with_ends ends l k" "IsAtEnd l" "list_all is_terminator ends"
  shows "\<exists>k'. GetArgs tokenCode m k = Inr ([], k') \<and> with_ends ends l k'"
proof (cases k rule: current_cases)
  case stop
  with assms show ?thesis by (auto simp: GetArgs_stop)
next
  case (tok tok)
  from assms(1,2) have c: "length (tokens l) \<le> cursor k" by (auto simp: with_ends_def IsAtEnd_def)
  with tok assms(1) have "tok = ends ! (cursor k - length (tokens l))" "cursor k - length (tokens l) < length ends"
    by (auto simp: current_def with_ends_def nth_append split: if_splits)
  with assms(3) have "is_terminator tok" by (simp add: list_all_length)
  with tok have "GetArgs tokenCode m k = Inr ([], advance k)"
    by (simp add: GetArgs_terminator is_terminator_def)
  moreover from assms(1,2) c have "with_ends ends l (advance k)"
    by (auto simp: with_ends_def IsAtEnd_def)
  ultimately show ?thesis by blast
qed

lemma GetArgs_with_ends:
  assumes "list_all is_terminator ends"
  shows "\<exists>as l'. GetArgs tokenCode m l = Inr (as, l') \<and>
     (\<forall>k. with_ends ends l k \<longrightarrow> (\<exists>k'. GetArgs tokenCode m k = Inr (as, k') \<and> with_ends ends l' k'))"
proof (induction rule: GetArgs_cases_induct)
  case (stop l)
  then show ?case using with_ends_stop[OF _ _ assms] by blast
next
  case (terminator l tok)
  show ?case
  proof (intro allI impI)
    fix k assume e: "with_ends ends l k"
    from with_ends_inside[OF e terminator(1)] terminator(2)
    show "\<exists>k'. GetArgs tokenCode m k = Inr ([], k') \<and> with_ends ends (advance l) k'"
      by (auto simp: GetArgs_terminator)
  qed
next
  case (unknown l as l')
  show ?case
  proof (intro allI impI)
    fix k assume e: "with_ends ends l k"
    from with_ends_inside[OF e unknown(1)] unknown(3)
    show "\<exists>k'. GetArgs tokenCode m k = Inr (as, k') \<and> with_ends ends l' k'"
      by (auto simp: GetArgs_unknown)
  qed
next
  case (empty l as l')
  show ?case
  proof (intro allI impI)
    fix k assume e: "with_ends ends l k"
    note i = with_ends_inside[OF e empty(1)]
    from empty(3) i(2) obtain k' where "GetArgs tokenCode m (advance k) = Inr (as, k')" "with_ends ends l' k'"
      by blast
    with i(1) show "\<exists>k'. GetArgs tokenCode m k = Inr (ArgSimple Monostate # as, k') \<and> with_ends ends l' k'"
      by (auto simp: GetArgs_empty)
  qed
next
  case (simple l tok as l')
  show ?case
  proof (intro allI impI)
    fix k assume e: "with_ends ends l k"
    note i = with_ends_inside[OF e simple(1)]
    from simple(4) i(2) obtain k' where "GetArgs tokenCode m (advance k) = Inr (as, k')" "with_ends ends l' k'"
      by blast
    with i(1) simple(2)
    show "\<exists>k'. GetArgs tokenCode m k = Inr (ArgSimple (simple_value tok) # as, k') \<and> with_ends ends l' k'"
      by (auto simp: GetArgs_simple)
  qed
next
  case (set_begin l inner l2 as l')
  show ?case
  proof (intro allI impI)
    fix k assume e: "with_ends ends l k"
    note i = with_ends_inside[OF e set_begin(1)]
    from set_begin(3) i(2) obtain k2 where
      a: "GetArgs tokenCode m (advance k) = Inr (inner, k2)" "with_ends ends l2 k2" by blast
    from set_begin(5) a(2) obtain k' where
      b: "GetArgs tokenCode m k2 = Inr (as, k')" "with_ends ends l' k'" by blast
    from GetArgs_set_begin[OF i(1) a(1)] b
    show "\<exists>k'. GetArgs tokenCode m k = Inr (ArgList inner # as, k') \<and> with_ends ends l' k'"
      by auto
  qed
next
  case (label l s inner l4 as l')
  show ?case
  proof (intro allI impI)
    fix k assume e: "with_ends ends l k"
    note i = with_ends_inside[OF e label(1)]
    from i(2) have "with_ends ends (advance (advance l)) (advance (advance k))"
      by (auto simp: with_ends_def)
    with label(3) obtain k4 where
      a: "GetArgs tokenCode m (advance (advance k)) = Inr (inner, k4)" "with_ends ends l4 k4" by blast
    from label(5) a(2) obtain k' where
      b: "GetArgs tokenCode m k4 = Inr (as, k')" "with_ends ends l' k'" by blast
    from GetArgs_label[OF i(1) a(1)] b
    show "\<exists>k'. GetArgs tokenCode m k =
        Inr (ArgObject [(''type'', ArgSimple (VLong (tokenCode LABEL))),
                        (''typecode'', ArgSimple (VUInt32 (IfcTypeToTypeCode m s))),
                        (''value'', ArgList inner)] # as, k') \<and> with_ends ends l' k'"
      by auto
  qed
qed

section \<open>Further properties of the decoder and the assembler\<close>

lemma GetArgs_well_keyed: "\<exists>as l'. GetArgs tokenCode m l = Inr (as, l') \<and> list_all well_keyed as"
  by (rule GetArgs_cases_induct) simp_all

lemma swap_terminators_simps [simp]:
  "IsAtEnd (swap_terminators l) = IsAtEnd l"
  "current (swap_terminators l) = map_option swap_terminator (current l)"
  "advance (swap_terminators l) = swap_terminators (advance l)"
  by (simp_all add: swap_terminators_def IsAtEnd_def current_def advance_def)

lemma swap_terminator_simps [simp]:
  "swap_terminator T_UNKNOWN = T_UNKNOWN" "swap_terminator T_EMPTY = T_EMPTY"
  "swap_terminator T_SET_BEGIN = T_SET_BEGIN" "swap_terminator (T_LABEL s) = T_LABEL s"
  "swap_terminator T_SET_END = T_LINE_END" "swap_terminator T_LINE_END = T_SET_END"
  by (simp_all add: swap_terminator_def)

lemma swap_terminator_simple:
  "tokenType tok \<in> {STRING, ENUM, REAL, INTEGER, REF} \<Longrightarrow> swap_terminator tok = tok"
  by (cases tok) (simp_all add: swap_terminator_def)

lemma GetArgs_swap_terminators:
  "\<exists>as l'. GetArgs tokenCode m l = Inr (as, l') \<and>
      GetArgs tokenCode m (swap_terminators l) = Inr (as, swap_terminators l')"
proof (induction rule: GetArgs_cases_induct)
  case (stop l)
  then show ?case by (simp add: GetArgs_stop)
next
  case (terminator l tok)
  then have "current (swap_terminators l) = Some (swap_terminator tok)"
    "swap_terminator tok = T_SET_END \<or> swap_terminator tok = T_LINE_END" by auto
  then show ?case using GetArgs_terminator[of "swap_terminators l"] by simp
next
  case (unknown l as l')
  then show ?case using GetArgs_unknown[of "swap_terminators l" tokenCode m] by simp
next
  case (empty l as l')
  then show ?case using GetArgs_empty[of "swap_terminators l" tokenCode m] by simp
next
  case (simple l tok as l')
  then show ?case using GetArgs_simple[of "swap_terminators l" tok tokenCode m]
    by (simp add: swap_terminator_simple)
next
  case (set_begin l inner l2 as l')
  then show ?case
    using GetArgs_set_begin[of "swap_terminators l" tokenCode m inner "swap_terminators l2"] by simp
next
  case (label l s inner l4 as l')
  then show ?case
    using GetArgs_label[of "swap_terminators l" s tokenCode m inner "swap_terminators l4"] by simp
qed

lemma GetRawLineData_run:
  obtains r l' where "GetRawLineData tokenCode l modelID m i = Inr (r, l')"
    "tokens l' = tokens l" "lines l' = lines l"
proof (cases "IsModelOpen m modelID \<and> IsValidExpressID l i \<and> GetLineType l i \<noteq> 0")
  case False
  then have "GetRawLineData tokenCode l modelID m i = Inr (IfcRawLine_default, l)"
    by (auto simp: GetRawLineData_def Let_def)
  then show ?thesis using that by blast
next
  case True
  obtain as l' where g: "GetArgs tokenCode m (MoveToArgumentOffset l i) = Inr (as, l')"
    "tokens l' = tokens (MoveToArgumentOffset l i)" "lines l' = lines (MoveToArgumentOffset l i)"
    by (rule GetArgs_run[of tokenCode m "MoveToArgumentOffset l i"]) blast
  have "tokens (MoveToArgumentOffset l i) = tokens l" "lines (MoveToArgumentOffset l i) = lines l"
    by (simp_all add: MoveToArgumentOffset_def split: option.splits)
  with True g that show ?thesis
    by (simp add: GetRawLineData_def Let_def)
qed

lemma MoveToArgumentOffset_same:
  assumes "tokens k = tokens l" "lines k = lines l" "IsValidExpressID l i"
  shows "MoveToArgumentOffset k i = MoveToArgumentOffset l i"
  using assms by (auto simp: MoveToArgumentOffset_def IsValidExpressID_def)

lemma GetRawLineData_same_record:
  assumes "tokens k = tokens l" "lines k = lines l"
    and "GetRawLineData tokenCode k modelID m i = Inr (r, k')"
  shows "\<exists>l'. GetRawLineData tokenCode l modelID m i = Inr (r, l')"
proof (cases "IsModelOpen m modelID \<and> IsValidExpressID l i \<and> GetLineType l i \<noteq> 0")
  case False
  with assms show ?thesis
    by (auto simp: GetRawLineData_def Let_def IsValidExpressID_def GetLineType_def)
next
  case True
  with assms(1,2) have "IsModelOpen m modelID \<and> IsValidExpressID k i \<and> GetLineType k i \<noteq> 0"
    "GetLineType k i = GetLineType l i"
    by (simp_all add: IsValidExpressID_def GetLineType_def)
  with True assms(3) MoveToArgumentOffset_same[OF assms(1,2), of i] show ?thesis
    by (auto simp: GetRawLineData_def Let_def split: sum.splits)
qed

lemma GetRawLinesData_loop_pointwise:
  assumes "tokens k = tokens l" "lines k = lines l"
  shows "\<exists>rs l'. GetRawLinesData_loop tokenCode k modelID m ids result = Inr (result @ rs, l') \<and>
           list_all2 (\<lambda>i r. \<exists>li. GetRawLineData tokenCode l modelID m i = Inr (r, li)) ids rs"
  using assms
proof (induction ids arbitrary: k result)
  case Nil
  show ?case by simp
next
  case (Cons i ids)
  obtain r k' where a: "GetRawLineData tokenCode k modelID m i = Inr (r, k')"
    "tokens k' = tokens k" "lines k' = lines k"
    by (rule GetRawLineData_run)
  from GetRawLineData_same_record[OF Cons.prems a(1)]
  obtain li where b: "GetRawLineData tokenCode l modelID m i = Inr (r, li)" by blast
  from Cons.IH[of k' "result @ [r]"] a Cons.prems obtain rs l' where
    c: "GetRawLinesData_loop tokenCode k' modelID m ids (result @ [r]) = Inr ((result @ [r]) @ rs, l')"
    "list_all2 (\<lambda>i r. \<exists>li. GetRawLineData tokenCode l modelID m i = Inr (r, li)) ids rs"
    by auto
  from a(1) c(1) have "GetRawLinesData_loop tokenCode k modelID m (i # ids) result =
      Inr (result @ (r # rs), l')" by simp
  moreover from b c(2) have
    "list_all2 (\<lambda>i r. \<exists>li. GetRawLineData tokenCode l modelID m i = Inr (r, li)) (i # ids) (r # rs)"
    by auto
  ultimately show ?case by blast
qed

lemmas eval_defs = GetArgs_def GetArgs_loop.simps IsAtEnd_def GetTokenType_def current_def
  advance_def StepBack_def ReadValue_def GetIntArgument_def GetStringArgument_def
  GetDecodedStringArgument_def GetDoubleArgument_def GetRefArgument_def obj_insert_def

section \<open>The two decoders side by side\<close>

lemma test_ReadValue_current:
  "current l = Some tok \<Longrightarrow> tokenType tok \<in> {STRING, ENUM, REAL, INTEGER, REF} \<Longrightarrow>
   test_ReadValue l (tokenType tok) = Inr (test_text tok, advance l)"
  by (cases tok)
     (auto simp: test_ReadValue_def GetStringArgument_def GetDecodedStringArgument_def
        GetDoubleArgumentAsString_def GetIntArgument_def GetRefArgument_def)

lemma test_stop: "IsAtEnd l \<or> e \<Longrightarrow> test_GetArgs_loop l io il args e = Inr (args, l)"
  by (subst test_GetArgs_loop.simps) auto

lemma test_terminator:
  "current l = Some tok \<Longrightarrow> tok = T_SET_END \<or> tok = T_LINE_END \<Longrightarrow>
   test_GetArgs_loop l io il args False = Inr (args, advance l)"
  by (subst test_GetArgs_loop.simps) (auto simp: current_not_at_end GetTokenType_current test_stop)

lemma test_empty:
  "current l = Some T_EMPTY \<Longrightarrow>
   test_GetArgs_loop l io il args False = test_GetArgs_loop (advance l) io il (args @ '' Empty '') False"
  by (subst test_GetArgs_loop.simps) (simp add: current_not_at_end GetTokenType_current)

lemma test_unknown:
  "current l = Some T_UNKNOWN \<Longrightarrow>
   test_GetArgs_loop l io il args False = test_GetArgs_loop (advance l) io il args False"
  by (subst test_GetArgs_loop.simps) (simp add: current_not_at_end GetTokenType_current)

lemma test_set_begin:
  "current l = Some T_SET_BEGIN \<Longrightarrow>
   test_GetArgs_loop l io il args False =
     (case test_GetArgs_loop (advance l) False True [] False of
        Inl e \<Rightarrow> Inl e
      | Inr (inner, l2) \<Rightarrow> test_GetArgs_loop l2 io il (args @ inner) False)"
  by (subst test_GetArgs_loop.simps) (simp add: current_not_at_end GetTokenType_current)

lemma test_label:
  "current l = Some (T_LABEL nm) \<Longrightarrow>
   test_GetArgs_loop l io il args False =
     (case test_GetArgs_loop (advance (advance l)) True False [] False of
        Inl e \<Rightarrow> Inl e
      | Inr (inner, l4) \<Rightarrow>
          test_GetArgs_loop l4 io il (args @ '' type: LABEL '' @ '' value '' @ inner @ '' '') False)"
  by (subst test_GetArgs_loop.simps)
     (simp add: current_not_at_end GetTokenType_current GetStringArgument_def Let_def
        split: sum.splits)

lemma test_simple:
  "current l = Some tok \<Longrightarrow> tokenType tok \<in> {STRING, ENUM, REAL, INTEGER, REF} \<Longrightarrow>
   test_GetArgs_loop l io il args False =
     test_GetArgs_loop (advance l) io il (args @ (if io then test_text tok else [])) False"
  by (subst test_GetArgs_loop.simps)
     (auto simp: current_not_at_end GetTokenType_current test_ReadValue_current Let_def)

lemma decoders_same_cursor:
  "\<exists>as l'. GetArgs tokenCode m l = Inr (as, l') \<and>
      (\<forall>io il. \<exists>s. \<forall>args. test_GetArgs_loop l io il args False = Inr (args @ s, l'))"
proof (induction rule: GetArgs_cases_induct)
  case (stop l)
  then have "\<forall>args. test_GetArgs_loop l io il args False = Inr (args @ [], l)" for io il
    by (simp add: test_stop)
  then show ?case by blast
next
  case (terminator l tok)
  then have "\<forall>args. test_GetArgs_loop l io il args False = Inr (args @ [], advance l)" for io il
    by (simp add: test_terminator)
  then show ?case by blast
next
  case (unknown l as l')
  then show ?case by (simp add: test_unknown)
next
  case (empty l as l')
  show ?case
  proof (intro allI)
    fix io il
    from empty(3) obtain s where "\<forall>args. test_GetArgs_loop (advance l) io il args False = Inr (args @ s, l')"
      by blast
    with empty(1) have "\<forall>args. test_GetArgs_loop l io il args False = Inr (args @ ('' Empty '' @ s), l')"
      by (simp add: test_empty)
    then show "\<exists>s. \<forall>args. test_GetArgs_loop l io il args False = Inr (args @ s, l')" by blast
  qed
next
  case (simple l tok as l')
  show ?case
  proof (intro allI)
    fix io il
    from simple(4) obtain s where "\<forall>args. test_GetArgs_loop (advance l) io il args False = Inr (args @ s, l')"
      by blast
    with simple(1,2) have "\<forall>args. test_GetArgs_loop l io il args False =
        Inr (args @ ((if io then test_text tok else []) @ s), l')"
      by (simp add: test_simple)
    then show "\<exists>s. \<forall>args. test_GetArgs_loop l io il args False = Inr (args @ s, l')" by blast
  qed
next
  case (set_begin l inner l2 as l')
  show ?case
  proof (intro allI)
    fix io il
    from set_begin(3) obtain s1 where
      1: "\<forall>args. test_GetArgs_loop (advance l) False True args False = Inr (args @ s1, l2)" by blast
    from set_begin(5) obtain s2 where
      2: "\<forall>args. test_GetArgs_loop l2 io il args False = Inr (args @ s2, l')" by blast
    from 1 have "test_GetArgs_loop (advance l) False True [] False = Inr (s1, l2)"
      by (metis append_Nil)
    with set_begin(1) 2 have "\<forall>args. test_GetArgs_loop l io il args False = Inr (args @ (s1 @ s2), l')"
      by (simp add: test_set_begin)
    then show "\<exists>s. \<forall>args. test_GetArgs_loop l io il args False = Inr (args @ s, l')" by blast
  qed
next
  case (label l nm inner l4 as l')
  show ?case
  proof (intro allI)
    fix io il
    from label(3) obtain s1 where
      1: "\<forall>args. test_GetArgs_loop (advance (advance l)) True False args False = Inr (args @ s1, l4)"
      by blast
    from label(5) obtain s2 where
      2: "\<forall>args. test_GetArgs_loop l4 io il args False = Inr (args @ s2, l')" by blast
    from 1 have "test_GetArgs_loop (advance (advance l)) True False [] False = Inr (s1, l4)"
      by (metis append_Nil)
    with label(1) 2 have "\<forall>args. test_GetArgs_loop l io il args False =
        Inr (args @ (('' type: LABEL '' @ '' value '' @ s1 @ '' '') @ s2), l')"
      by (simp add: test_label)
    then show "\<exists>s. \<forall>args. test_GetArgs_loop l io il args False = Inr (args @ s, l')" by blast
  qed
qed

lemmas test_eval_defs = test_GetArgs_def test_GetArgs_loop.simps test_ReadValue_def
  GetDoubleArgumentAsString_def to_string_long_def to_string_uint32_def

section \<open>The claims\<close>

text \<open>
  C10.  For every token type, \<open>ReadValue\<close> called with a null loader pointer returns the
  null scalar (monostate) and dereferences nothing: the function is defined for the
  null pointer as well.
\<close>

theorem ReadValue_null_loader: "ReadValue None t = Inr (Monostate, None)"
  by (simp add: ReadValue_def)

text \<open>
  C3.  With an ENUMERATION token under the cursor, \<open>ReadValue\<close> maps the payload
  \<^verbatim>\<open>"T"\<close> to the boolean true, \<^verbatim>\<open>"F"\<close> to the boolean false, \<^verbatim>\<open>"U"\<close> to the null scalar,
  and any other payload to that string as text; the cursor moves past the token.
\<close>

theorem ReadValue_ENUM:
  assumes "current l = Some (T_ENUM s)"
  shows "ReadValue (Some l) ENUM =
           Inr (if s = ''T'' then VBool True
                else if s = ''F'' then VBool False
                else if s = ''U'' then Monostate
                else VString s,
                Some (advance l))"
  using assms by (simp add: ReadValue_def GetStringArgument_def)

text \<open>The four kinds of payload, each read from a one-token stream.\<close>

theorem ReadValue_ENUM_witness:
  "ReadValue (Some \<lparr>tokens = [T_ENUM ''T''], cursor = 0, lines = []\<rparr>) ENUM =
     Inr (VBool True, Some \<lparr>tokens = [T_ENUM ''T''], cursor = 1, lines = []\<rparr>) \<and>
   ReadValue (Some \<lparr>tokens = [T_ENUM ''F''], cursor = 0, lines = []\<rparr>) ENUM =
     Inr (VBool False, Some \<lparr>tokens = [T_ENUM ''F''], cursor = 1, lines = []\<rparr>) \<and>
   ReadValue (Some \<lparr>tokens = [T_ENUM ''U''], cursor = 0, lines = []\<rparr>) ENUM =
     Inr (Monostate, Some \<lparr>tokens = [T_ENUM ''U''], cursor = 1, lines = []\<rparr>) \<and>
   ReadValue (Some \<lparr>tokens = [T_ENUM ''X''], cursor = 0, lines = []\<rparr>) ENUM =
     Inr (VString ''X'', Some \<lparr>tokens = [T_ENUM ''X''], cursor = 1, lines = []\<rparr>)"
  using ReadValue_ENUM[of "\<lparr>tokens = [T_ENUM ''T''], cursor = 0, lines = []\<rparr>" "''T''"]
        ReadValue_ENUM[of "\<lparr>tokens = [T_ENUM ''F''], cursor = 0, lines = []\<rparr>" "''F''"]
        ReadValue_ENUM[of "\<lparr>tokens = [T_ENUM ''U''], cursor = 0, lines = []\<rparr>" "''U''"]
        ReadValue_ENUM[of "\<lparr>tokens = [T_ENUM ''X''], cursor = 0, lines = []\<rparr>" "''X''"]
  by (simp add: current_def advance_def)

text \<open>
  C1 (as amended).  For every invalid request (the model is not open, the identifier
  is not valid in the token source, or the looked-up type code is 0)
  \<open>GetRawLineData\<close> returns the default-constructed record: no identifier, no type
  code (absent rather than 0), and the null scalar as its arguments (not a list); the
  loader is left as it was.
\<close>

theorem GetRawLineData_invalid:
  assumes "\<not> IsModelOpen manager modelID \<or> \<not> IsValidExpressID loader expressID
           \<or> GetLineType loader expressID = 0"
  shows "GetRawLineData tokenCode loader modelID manager expressID =
           Inr (\<lparr>ID = None, type = None, arguments = ArgSimple Monostate\<rparr>, loader)"
  using assms by (auto simp: GetRawLineData_def IfcRawLine_default_def Let_def)

text \<open>The three kinds of invalid request.\<close>

theorem GetRawLineData_invalid_witness:
  "GetRawLineData exampleCode exampleLoader 0 closedManager 5 =
     Inr (\<lparr>ID = None, type = None, arguments = ArgSimple Monostate\<rparr>, exampleLoader) \<and>
   GetRawLineData exampleCode exampleLoader 0 openManager 999 =
     Inr (\<lparr>ID = None, type = None, arguments = ArgSimple Monostate\<rparr>, exampleLoader) \<and>
   GetRawLineData exampleCode exampleLoader 0 openManager 9 =
     Inr (\<lparr>ID = None, type = None, arguments = ArgSimple Monostate\<rparr>, exampleLoader)"
  using GetRawLineData_invalid[of closedManager 0 exampleLoader 5 exampleCode]
        GetRawLineData_invalid[of openManager 0 exampleLoader 999 exampleCode]
        GetRawLineData_invalid[of openManager 0 exampleLoader 9 exampleCode]
  by (simp add: closedManager_def openManager_def exampleLoader_def IsValidExpressID_def
        GetLineType_def)

text \<open>
  C1 as stated fails: with the model closed, the record returned for identifier 5
  neither carries type code 0 nor has a list, empty or not, as its arguments.
\<close>

theorem GetRawLineData_invalid_counterexample:
  "\<not> (\<exists>r l'. GetRawLineData exampleCode exampleLoader 0 closedManager 5 = Inr (r, l') \<and>
        (type r = Some 0 \<or> (\<exists>as. arguments r = ArgList as)))"
  by (simp add: GetRawLineData_def closedManager_def IfcRawLine_default_def)

text \<open>
  C2 (as amended).  For every valid record (the model is open, the identifier is valid,
  the looked-up type code is not 0) \<open>GetRawLineData\<close> returns a record whose identifier is
  the requested one, whose type code is the looked-up one and greater than 0, and whose
  arguments are a list.  Provided every TYPED-LABEL token of the argument section is
  directly followed by a LIST-BEGIN, that list holds one argument per top-level argument
  token, in source order, each the argument its token stands for.  The top-level
  argument tokens are the EMPTY, scalar, LIST-BEGIN and TYPED-LABEL tokens outside every
  nested list, from the start of the argument section to its first top-level terminator
  or the end of the stream; an unrecognized token is skipped and is none of them.
\<close>

theorem GetRawLineData_valid:
  assumes "IsModelOpen manager modelID" and "IsValidExpressID loader expressID"
    and "GetLineType loader expressID \<noteq> 0"
  shows "\<exists>as l'.
           GetRawLineData tokenCode loader modelID manager expressID =
             Inr (\<lparr>ID = Some expressID, type = Some (GetLineType loader expressID),
                   arguments = ArgList as\<rparr>, l') \<and>
           0 < GetLineType loader expressID \<and>
           (labels_open 0 (remaining (MoveToArgumentOffset loader expressID)) \<longrightarrow>
              list_all2 (is_argument_of tokenCode manager)
                (top_level (remaining (MoveToArgumentOffset loader expressID))) as)"
proof -
  from GetArgs_top_level[of tokenCode manager "MoveToArgumentOffset loader expressID"]
  obtain as l' where
    g: "GetArgs tokenCode manager (MoveToArgumentOffset loader expressID) = Inr (as, l')" and
    t: "labels_open 0 (remaining (MoveToArgumentOffset loader expressID)) \<longrightarrow>
          list_all2 (is_argument_of tokenCode manager)
            (top_level (remaining (MoveToArgumentOffset loader expressID))) as"
    by blast
  have "GetRawLineData tokenCode loader modelID manager expressID =
      Inr (\<lparr>ID = Some expressID, type = Some (GetLineType loader expressID),
            arguments = ArgList as\<rparr>, l')"
    using assms g by (simp add: GetRawLineData_def IfcRawLine_default_def Let_def)
  moreover have "0 < GetLineType loader expressID"
    using assms(3) by (simp add: word_greater_zero_iff)
  ultimately show ?thesis using t by blast
qed

text \<open>
  Record 5 of the example file: its three top-level argument tokens, and an argument
  for each.
\<close>

theorem GetRawLineData_valid_witness:
  "IsModelOpen openManager 0 \<and> IsValidExpressID exampleLoader 5 \<and>
   GetLineType exampleLoader 5 \<noteq> 0 \<and>
   labels_open 0 (remaining (MoveToArgumentOffset exampleLoader 5)) \<and>
   top_level (remaining (MoveToArgumentOffset exampleLoader 5)) =
     [T_INTEGER 7, T_SET_BEGIN, T_LABEL ''IFCBOOLEAN''] \<and>
   (\<exists>as l'.
      GetRawLineData exampleCode exampleLoader 0 openManager 5 =
        Inr (\<lparr>ID = Some 5, type = Some 100, arguments = ArgList as\<rparr>, l') \<and>
      list_all2 (is_argument_of exampleCode openManager)
        [T_INTEGER 7, T_SET_BEGIN, T_LABEL ''IFCBOOLEAN''] as)"
proof -
  have v: "IsModelOpen openManager 0" "IsValidExpressID exampleLoader 5"
    "GetLineType exampleLoader 5 = 100"
    by (simp_all add: openManager_def exampleLoader_def IsValidExpressID_def GetLineType_def)
  have r: "remaining (MoveToArgumentOffset exampleLoader 5) = tokens exampleLoader"
    by (simp add: remaining_def MoveToArgumentOffset_def exampleLoader_def)
  have o: "labels_open 0 (tokens exampleLoader)" by (simp add: exampleLoader_def)
  have t: "top_level (tokens exampleLoader) = [T_INTEGER 7, T_SET_BEGIN, T_LABEL ''IFCBOOLEAN'']"
    by (simp add: exampleLoader_def top_level.simps)
  from GetRawLineData_valid[of openManager 0 exampleLoader 5 exampleCode] v r o t
  show ?thesis by auto
qed

text \<open>
  C2 as stated fails: in the valid record with the argument section \<^verbatim>\<open>X 7 ) ;\<close> the label
  and the integer are two top-level argument tokens, but one argument is returned.  The
  token behind the label is consumed in place of the opening bracket, whatever it is, so
  the integer yields no argument.
\<close>

theorem GetRawLineData_valid_counterexample:
  "GetRawLineData exampleCode
     \<lparr>tokens = [T_LABEL ''X'', T_INTEGER 7, T_SET_END, T_LINE_END], cursor = 0,
      lines = [(5, \<lparr>lineType = 100, argumentStart = 0\<rparr>)]\<rparr> 0 openManager 5 =
   Inr (\<lparr>ID = Some 5, type = Some 100,
         arguments = ArgList [ArgObject [(''type'', ArgSimple (VLong 2)),
                                         (''typecode'', ArgSimple (VUInt32 0)),
                                         (''value'', ArgList [])]]\<rparr>,
        \<lparr>tokens = [T_LABEL ''X'', T_INTEGER 7, T_SET_END, T_LINE_END], cursor = 4,
         lines = [(5, \<lparr>lineType = 100, argumentStart = 0\<rparr>)]\<rparr>) \<and>
   top_level [T_LABEL ''X'', T_INTEGER 7, T_SET_END, T_LINE_END] = [T_LABEL ''X'', T_INTEGER 7]"
  by (simp add: GetRawLineData_def openManager_def IsValidExpressID_def GetLineType_def
      MoveToArgumentOffset_def IfcRawLine_default_def exampleCode_def eval_defs top_level.simps)

text \<open>
  C4.  Whenever the loop of the decoder has a TYPED-LABEL token under the cursor, the
  argument it appends is an object with exactly the keys \<^verbatim>\<open>type\<close> (the code of the LABEL
  classification), \<^verbatim>\<open>typecode\<close> (what the schema resolver gives for the label's name,
  whatever that is) and \<^verbatim>\<open>value\<close>, and under \<^verbatim>\<open>value\<close> stands the list decoded behind the
  token that follows the label.  Every object anywhere in a decoded list has this key set
  and a list under \<^verbatim>\<open>value\<close>.
\<close>

theorem GetArgs_label_object:
  "(current l = Some (T_LABEL s) \<longrightarrow>
      (\<exists>obj inner l4 rest l'.
         GetArgs tokenCode m (advance (advance l)) = Inr (inner, l4) \<and>
         GetArgs_loop tokenCode m l args False = Inr (args @ ArgObject obj # rest, l') \<and>
         fst ` set obj = {''type'', ''typecode'', ''value''} \<and> distinct (map fst obj) \<and>
         map_of obj ''type'' = Some (ArgSimple (VLong (tokenCode LABEL))) \<and>
         map_of obj ''typecode'' = Some (ArgSimple (VUInt32 (IfcTypeToTypeCode m s))) \<and>
         map_of obj ''value'' = Some (ArgList inner))) \<and>
   (\<exists>as l'. GetArgs tokenCode m l = Inr (as, l') \<and> list_all well_keyed as)"
proof (intro conjI impI)
  assume c: "current l = Some (T_LABEL s)"
  obtain inner l4 where a4: "GetArgs tokenCode m (advance (advance l)) = Inr (inner, l4)"
    by (rule GetArgs_run[of tokenCode m "advance (advance l)"]) blast
  obtain rest l' where a5: "GetArgs tokenCode m l4 = Inr (rest, l')"
    by (rule GetArgs_run[of tokenCode m l4]) blast
  let ?obj = "[(''type'', ArgSimple (VLong (tokenCode LABEL))),
               (''typecode'', ArgSimple (VUInt32 (IfcTypeToTypeCode m s))),
               (''value'', ArgList inner)]"
  have "GetArgs_loop tokenCode m l args False = Inr (args @ ArgObject ?obj # rest, l')"
    using GetArgs_label[OF c a4] a5 by (simp add: loop_acc)
  moreover have "fst ` set ?obj = {''type'', ''typecode'', ''value''}" by simp
  moreover have "distinct (map fst ?obj)" by simp
  ultimately show "\<exists>obj inner l4 rest l'.
         GetArgs tokenCode m (advance (advance l)) = Inr (inner, l4) \<and>
         GetArgs_loop tokenCode m l args False = Inr (args @ ArgObject obj # rest, l') \<and>
         fst ` set obj = {''type'', ''typecode'', ''value''} \<and> distinct (map fst obj) \<and>
         map_of obj ''type'' = Some (ArgSimple (VLong (tokenCode LABEL))) \<and>
         map_of obj ''typecode'' = Some (ArgSimple (VUInt32 (IfcTypeToTypeCode m s))) \<and>
         map_of obj ''value'' = Some (ArgList inner)"
    using a4 by (intro exI[of _ ?obj] exI[of _ inner] exI[of _ l4] exI[of _ rest] exI[of _ l']) simp
next
  show "\<exists>as l'. GetArgs tokenCode m l = Inr (as, l') \<and> list_all well_keyed as"
    by (rule GetArgs_well_keyed)
qed

text \<open>The label \<^verbatim>\<open>IFCBOOLEAN(.F.)\<close> of record 5.\<close>

theorem GetArgs_label_object_witness:
  "\<exists>obj rest l'.
     GetArgs_loop exampleCode openManager (exampleLoader\<lparr>cursor := 5\<rparr>) [] False =
       Inr ([] @ ArgObject obj # rest, l') \<and>
     fst ` set obj = {''type'', ''typecode'', ''value''} \<and> distinct (map fst obj) \<and>
     map_of obj ''type'' = Some (ArgSimple (VLong 2)) \<and>
     map_of obj ''typecode'' = Some (ArgSimple (VUInt32 42)) \<and>
     map_of obj ''value'' = Some (ArgList [ArgSimple (VBool False)])"
proof -
  have c: "current (exampleLoader\<lparr>cursor := 5\<rparr>) = Some (T_LABEL ''IFCBOOLEAN'')"
    by (simp add: current_def exampleLoader_def)
  have i: "GetArgs exampleCode openManager (advance (advance (exampleLoader\<lparr>cursor := 5\<rparr>))) =
      Inr ([ArgSimple (VBool False)], exampleLoader\<lparr>cursor := 9\<rparr>)"
    by (simp add: exampleLoader_def eval_defs)
  from GetArgs_label_object[of "exampleLoader\<lparr>cursor := 5\<rparr>" "''IFCBOOLEAN''"
      exampleCode openManager "[]"] c i
  show ?thesis by (auto simp: exampleCode_def openManager_def)
qed

text \<open>
  C5.  For every vector of identifiers \<open>GetRawLinesData\<close> returns a vector of the same
  length whose i-th record is the one \<open>GetRawLineData\<close> returns for the i-th identifier
  on the loader as it was given, in input order; the loop never stops early.  At the
  position of an invalid identifier stands the default-constructed record.
\<close>

theorem GetRawLinesData_pointwise:
  "\<exists>rs l'. GetRawLinesData tokenCode l modelID m expressIDs = Inr (rs, l') \<and>
      length rs = length expressIDs \<and>
      list_all2 (\<lambda>i r. \<exists>li. GetRawLineData tokenCode l modelID m i = Inr (r, li)) expressIDs rs \<and>
      (\<forall>k < length expressIDs.
         \<not> IsModelOpen m modelID \<or> \<not> IsValidExpressID l (expressIDs ! k) \<or>
         GetLineType l (expressIDs ! k) = 0 \<longrightarrow>
         rs ! k = \<lparr>ID = None, type = None, arguments = ArgSimple Monostate\<rparr>)"
proof -
  from GetRawLinesData_loop_pointwise[of l l tokenCode modelID m expressIDs "[]"]
  obtain rs l' where a: "GetRawLinesData tokenCode l modelID m expressIDs = Inr (rs, l')"
    "list_all2 (\<lambda>i r. \<exists>li. GetRawLineData tokenCode l modelID m i = Inr (r, li)) expressIDs rs"
    by (auto simp: GetRawLinesData_def)
  from a(2) have len: "length rs = length expressIDs" by (simp add: list_all2_lengthD)
  have "rs ! k = \<lparr>ID = None, type = None, arguments = ArgSimple Monostate\<rparr>"
    if k: "k < length expressIDs"
      and inv: "\<not> IsModelOpen m modelID \<or> \<not> IsValidExpressID l (expressIDs ! k) \<or>
        GetLineType l (expressIDs ! k) = 0" for k
  proof -
    from a(2) k obtain li where
      "GetRawLineData tokenCode l modelID m (expressIDs ! k) = Inr (rs ! k, li)"
      by (auto dest: list_all2_nthD)
    moreover from inv have "GetRawLineData tokenCode l modelID m (expressIDs ! k) =
        Inr (IfcRawLine_default, l)"
      by (auto simp: GetRawLineData_def Let_def)
    ultimately show ?thesis by (simp add: IfcRawLine_default_def)
  qed
  with a len show ?thesis by blast
qed

text \<open>A batch with the absent identifier 999 between two valid ones.\<close>

theorem GetRawLinesData_pointwise_witness:
  "\<exists>l'. GetRawLinesData exampleCode exampleLoader 0 openManager [7, 999, 5] =
     Inr ([\<lparr>ID = Some 7, type = Some 200, arguments = ArgList [ArgSimple (VUInt32 5)]\<rparr>,
           \<lparr>ID = None, type = None, arguments = ArgSimple Monostate\<rparr>,
           \<lparr>ID = Some 5, type = Some 100,
             arguments = ArgList
               [ArgSimple (VLong 7),
                ArgList [ArgSimple (VBool True), ArgSimple Monostate],
                ArgObject [(''type'', ArgSimple (VLong 2)),
                           (''typecode'', ArgSimple (VUInt32 42)),
                           (''value'', ArgList [ArgSimple (VBool False)])]]\<rparr>], l')"
proof -
  have 1: "GetRawLineData exampleCode exampleLoader 0 openManager 7 =
      Inr (\<lparr>ID = Some 7, type = Some 200, arguments = ArgList [ArgSimple (VUInt32 5)]\<rparr>,
           exampleLoader\<lparr>cursor := 13\<rparr>)"
    by (simp add: GetRawLineData_def exampleLoader_def openManager_def IsValidExpressID_def
        GetLineType_def MoveToArgumentOffset_def IfcRawLine_default_def eval_defs)
  have 2: "GetRawLineData exampleCode exampleLoader 0 openManager 999 =
      Inr (\<lparr>ID = None, type = None, arguments = ArgSimple Monostate\<rparr>, exampleLoader)"
    by (simp add: GetRawLineData_def exampleLoader_def openManager_def IsValidExpressID_def
        IfcRawLine_default_def)
  have 3: "GetRawLineData exampleCode exampleLoader 0 openManager 5 =
      Inr (\<lparr>ID = Some 5, type = Some 100,
             arguments = ArgList
               [ArgSimple (VLong 7),
                ArgList [ArgSimple (VBool True), ArgSimple Monostate],
                ArgObject [(''type'', ArgSimple (VLong 2)),
                           (''typecode'', ArgSimple (VUInt32 42)),
                           (''value'', ArgList [ArgSimple (VBool False)])]]\<rparr>,
           exampleLoader\<lparr>cursor := 10\<rparr>)"
    by (simp add: GetRawLineData_def exampleLoader_def openManager_def IsValidExpressID_def
        GetLineType_def MoveToArgumentOffset_def IfcRawLine_default_def exampleCode_def eval_defs)
  from GetRawLinesData_pointwise[of exampleCode exampleLoader 0 openManager "[7, 999, 5]"]
  show ?thesis by (auto simp: 1 2 3 list_all2_Cons1)
qed







text \<open>
  C8 (as amended).  A call of the decoder returns the list of arguments only and ends in
  the same way on either terminator: with LIST-END and RECORD-END tokens exchanged
  throughout the stream, the call returns the same list and stops at the same cursor.
\<close>

theorem GetArgs_terminator_not_exposed:
  "\<exists>as l'. GetArgs tokenCode m l = Inr (as, l') \<and>
      GetArgs tokenCode m (l\<lparr>tokens := map swap_terminator (tokens l)\<rparr>) =
        Inr (as, l'\<lparr>tokens := map swap_terminator (tokens l')\<rparr>)"
  using GetArgs_swap_terminators[of tokenCode m l] by (simp add: swap_terminators_def)

text \<open>
  C8 as stated fails: the calls on \<^verbatim>\<open>$ )\<close> and on \<^verbatim>\<open>$ ;\<close> return the same list and stop at
  the same cursor, so the result does not tell which terminator ended the call.
\<close>

theorem GetArgs_terminator_not_exposed_counterexample:
  "GetArgs exampleCode openManager \<lparr>tokens = [T_EMPTY, T_SET_END], cursor = 0, lines = []\<rparr> =
     Inr ([ArgSimple Monostate], \<lparr>tokens = [T_EMPTY, T_SET_END], cursor = 2, lines = []\<rparr>) \<and>
   GetArgs exampleCode openManager \<lparr>tokens = [T_EMPTY, T_LINE_END], cursor = 0, lines = []\<rparr> =
     Inr ([ArgSimple Monostate], \<lparr>tokens = [T_EMPTY, T_LINE_END], cursor = 2, lines = []\<rparr>)"
  by (simp add: eval_defs)

text \<open>
  C9 (as amended).  On every token stream the tree-building decoder and the debug
  decoder of the test driver both return, and they stop with the loader in the same
  state: they consume the same tokens.  The debug decoder's string is flat; it carries no
  mark of where a list begins or ends.
\<close>

theorem decoders_consume_same_tokens:
  "\<exists>as s l'. GetArgs tokenCode m l = Inr (as, l') \<and> test_GetArgs l inObject inList = Inr (s, l')"
proof -
  from decoders_same_cursor[of tokenCode m l] obtain as l' where
    a: "GetArgs tokenCode m l = Inr (as, l')" and
    b: "\<forall>io il. \<exists>s. \<forall>args. test_GetArgs_loop l io il args False = Inr (args @ s, l')"
    by blast
  from b obtain s where "\<forall>args. test_GetArgs_loop l inObject inList args False = Inr (args @ s, l')"
    by blast
  then have "test_GetArgs l inObject inList = Inr (s, l')"
    unfolding test_GetArgs_def by (metis append_Nil)
  with a show ?thesis by blast
qed

text \<open>
  C9 as stated fails: the streams \<^verbatim>\<open>$ )\<close> and \<^verbatim>\<open>( $ ) )\<close> give the same debug string,
  while the tree-building decoder gives a null scalar for the first and a list holding a
  null scalar for the second.  The outputs do not have the same nesting shape.
\<close>

theorem decoders_agree_counterexample:
  "test_GetArgs \<lparr>tokens = [T_EMPTY, T_SET_END], cursor = 0, lines = []\<rparr> False False =
     Inr ('' Empty '', \<lparr>tokens = [T_EMPTY, T_SET_END], cursor = 2, lines = []\<rparr>) \<and>
   test_GetArgs \<lparr>tokens = [T_SET_BEGIN, T_EMPTY, T_SET_END, T_SET_END], cursor = 0, lines = []\<rparr>
       False False =
     Inr ('' Empty '',
          \<lparr>tokens = [T_SET_BEGIN, T_EMPTY, T_SET_END, T_SET_END], cursor = 4, lines = []\<rparr>) \<and>
   GetArgs exampleCode openManager \<lparr>tokens = [T_EMPTY, T_SET_END], cursor = 0, lines = []\<rparr> =
     Inr ([ArgSimple Monostate], \<lparr>tokens = [T_EMPTY, T_SET_END], cursor = 2, lines = []\<rparr>) \<and>
   GetArgs exampleCode openManager
       \<lparr>tokens = [T_SET_BEGIN, T_EMPTY, T_SET_END, T_SET_END], cursor = 0, lines = []\<rparr> =
     Inr ([ArgList [ArgSimple Monostate]],
          \<lparr>tokens = [T_SET_BEGIN, T_EMPTY, T_SET_END, T_SET_END], cursor = 4, lines = []\<rparr>)"
  by (simp add: eval_defs test_eval_defs)

end
